theory Spec2Isabelle
  imports Main
begin

section \<open>Text primitives of the scaffolder\<close>

text \<open>
  The scaffolder works on JavaScript strings. A string is modelled as a \<open>char list\<close>, one
  \<open>char\<close> per code unit, for texts whose code units lie in U+0000..U+00FF. In that range
  the characters that \<open>String.prototype.trim\<close> strips and that the regular-expression
  class \<open>\s\<close> matches are TAB, LF, VT, FF, CR, SPACE and NO-BREAK SPACE.
\<close>

definition isSpace :: "char \<Rightarrow> bool" where
  "isSpace c = (c = CHR 0x09 \<or> c = CHR 0x0A \<or> c = CHR 0x0B \<or> c = CHR 0x0C \<or>
                c = CHR 0x0D \<or> c = CHR 0x20 \<or> c = CHR 0xA0)"

definition trim :: "string \<Rightarrow> string" where
  "trim s = rev (dropWhile isSpace (rev (dropWhile isSpace s)))"

definition startsWith :: "string \<Rightarrow> string \<Rightarrow> bool" where
  "startsWith s p = (take (length p) s = p)"

fun includesStr :: "string \<Rightarrow> string \<Rightarrow> bool" where
  "includesStr [] sub = (sub = [])"
| "includesStr (c # cs) sub = (startsWith (c # cs) sub \<or> includesStr cs sub)"

text \<open>\<open>s.split("\n")\<close> and \<open>lines.join("\n")\<close>.\<close>

fun splitNL :: "string \<Rightarrow> string list" where
  "splitNL [] = [[]]"
| "splitNL (c # cs) =
     (if c = CHR 0x0A then [] # splitNL cs
      else (case splitNL cs of [] \<Rightarrow> [[c]] | l # ls \<Rightarrow> (c # l) # ls))"

fun joinNL :: "string list \<Rightarrow> string" where
  "joinNL [] = []"
| "joinNL [l] = l"
| "joinNL (l # m # ls) = l @ CHR 0x0A # joinNL (m # ls)"

section \<open>The step-block remover\<close>

text \<open>
  \<open>line.match(/^\s+- (name:|uses:|run:)/)\<close>: one or more whitespace characters, then
  \<open>- name:\<close>, \<open>- uses:\<close> or \<open>- run:\<close>. The dash is no whitespace, so \<open>\s+\<close> has to take the
  whole run of leading whitespace.
\<close>

definition boundaryMatch :: "string \<Rightarrow> bool" where
  "boundaryMatch line =
     (let r = dropWhile isSpace line in
      r \<noteq> line \<and> (startsWith r ''- name:'' \<or> startsWith r ''- uses:'' \<or> startsWith r ''- run:''))"

text \<open>
  The loop of \<open>removeStepBlock\<close> over the remaining lines, with the flag \<open>skipping\<close>; it
  returns the lines pushed to \<open>result\<close>, in order.
\<close>

fun removeLoop :: "string \<Rightarrow> bool \<Rightarrow> string list \<Rightarrow> string list" where
  "removeLoop sub skipping [] = []"
| "removeLoop sub skipping (line # rest) =
     (let trimmed = trim line in
      if \<not> skipping \<and> startsWith trimmed ''- name:'' \<and> includesStr trimmed sub
      then removeLoop sub True rest
      else
        (let skipping' = (if skipping \<and> boundaryMatch line \<and> \<not> includesStr trimmed sub
                          then False else skipping)
         in if \<not> skipping' then line # removeLoop sub skipping' rest
            else removeLoop sub skipping' rest))"

definition removeStepBlock :: "string \<Rightarrow> string \<Rightarrow> string" where
  "removeStepBlock yaml stepNameSubstring =
     joinNL (removeLoop stepNameSubstring False (splitNL yaml))"

text \<open>
  Names for the tests the loop makes on a line: \<open>isNameHeader\<close> is
  \<open>trimmed.startsWith("- name:")\<close>, \<open>startsTarget\<close> is the whole condition that starts
  skipping, and a step header is a line that either test of the loop recognises as the
  first line of a step.
\<close>

definition isNameHeader :: "string \<Rightarrow> bool" where
  "isNameHeader line = startsWith (trim line) ''- name:''"

definition startsTarget :: "string \<Rightarrow> string \<Rightarrow> bool" where
  "startsTarget sub line = (isNameHeader line \<and> includesStr (trim line) sub)"

definition isStepHeader :: "string \<Rightarrow> bool" where
  "isStepHeader line = (isNameHeader line \<or> boundaryMatch line)"

section \<open>Placeholder substitution\<close>

text \<open>
  \<open>replacePlaceholders\<close> builds, for each entry of \<open>Object.entries(vars)\<close>, the global
  regular expression \<open>{{\s*KEY\s*}}\<close> and calls \<open>out.replace(re, val ?? "")\<close>. The key is
  spliced into the source of the expression; for a key made of letters, digits and
  underscores (every key of the variable maps of the scaffolder is one) it stands for
  itself. \<open>placeholderRest key s\<close> matches the expression at the start of \<open>s\<close> and returns
  what follows the match: neither the key nor a brace is whitespace, so each \<open>\s*\<close> takes
  the whole run of whitespace.
\<close>

definition placeholderRest :: "string \<Rightarrow> string \<Rightarrow> string option" where
  "placeholderRest key s =
     (if startsWith s ''{{'' then
        (let r = dropWhile isSpace (drop 2 s) in
         if startsWith r key then
           (let r2 = dropWhile isSpace (drop (length key) r) in
            if startsWith r2 ''}}'' then Some (drop 2 r2) else None)
         else None)
      else None)"

text \<open>
  The expansion of the replacement text for one match (GetSubstitution of ECMAScript):
  \<open>$$\<close> is a dollar sign, \<open>$&\<close> the matched text, \<open>$`\<close> the text before the match and
  \<open>$'\<close> the text after it. The expression has no capture group, so \<open>$1\<close>, \<open>$<name>\<close>
  and any other use of the dollar sign stand for themselves.
\<close>

fun getSubstitution :: "string \<Rightarrow> string \<Rightarrow> string \<Rightarrow> string \<Rightarrow> string" where
  "getSubstitution matched left right [] = []"
| "getSubstitution matched left right [c] = [c]"
| "getSubstitution matched left right (c # d # r) =
     (if c = CHR ''$'' \<and> d = CHR ''$'' then CHR ''$'' # getSubstitution matched left right r
      else if c = CHR ''$'' \<and> d = CHR ''&'' then matched @ getSubstitution matched left right r
      else if c = CHR ''$'' \<and> d = CHR 0x60 then left @ getSubstitution matched left right r
      else if c = CHR ''$'' \<and> d = CHR 0x27 then right @ getSubstitution matched left right r
      else c # getSubstitution matched left right (d # r))"

text \<open>
  The scan of \<open>String.prototype.replace\<close> with a global expression: the leftmost match is
  replaced, the scan goes on after it, and the replacement text is never scanned again.
  \<open>left\<close> is the text already passed, and \<open>sub matched left right\<close> is the text put in
  place of a match.
\<close>

function replaceWith ::
  "string \<Rightarrow> (string \<Rightarrow> string \<Rightarrow> string \<Rightarrow> string) \<Rightarrow> string \<Rightarrow> string \<Rightarrow> string" where
  "replaceWith key sub left [] = []"
| "replaceWith key sub left (c # cs) =
     (case placeholderRest key (c # cs) of
        Some rest \<Rightarrow>
          (let matched = take (length (c # cs) - length rest) (c # cs) in
           sub matched left rest @ replaceWith key sub (left @ matched) rest)
      | None \<Rightarrow> c # replaceWith key sub (left @ [c]) cs)"
  by pat_completeness auto
termination
proof (relation "measure (\<lambda>(key, sub, left, s). length s)")
  show "wf (measure (\<lambda>(key, sub, left, s). length s))" by simp
next
  fix key left :: string and sub :: "string \<Rightarrow> string \<Rightarrow> string \<Rightarrow> string"
    and c cs rest matched
  assume a: "placeholderRest key (c # cs) = Some rest"
  define r where "r = dropWhile isSpace (drop 2 (c # cs))"
  define r2 where "r2 = dropWhile isSpace (drop (length key) r)"
  from a have rest: "rest = drop 2 r2" and st: "startsWith r2 ''}}''"
    by (auto simp: placeholderRest_def Let_def r_def r2_def split: if_splits)
  from st have "take (length ''}}'') r2 = ''}}''" by (simp only: startsWith_def)
  then have "length (take (length ''}}'') r2) = length ''}}''" by (rule arg_cong)
  then have l2: "2 \<le> length r2" by simp
  have "length r2 \<le> length (drop (length key) r)"
    unfolding r2_def by (rule length_dropWhile_le)
  also have "\<dots> \<le> length r" by simp
  also have "\<dots> \<le> length (drop 2 (c # cs))"
    unfolding r_def by (rule length_dropWhile_le)
  also have "\<dots> \<le> length (c # cs)" by simp
  finally have "length r2 \<le> length (c # cs)" .
  with l2 rest have "length rest < length (c # cs)" by simp
  then show "((key, sub, left @ matched, rest), key, sub, left, c # cs)
             \<in> measure (\<lambda>(key, sub, left, s). length s)"
    by simp
next
  fix key left :: string and sub :: "string \<Rightarrow> string \<Rightarrow> string \<Rightarrow> string" and c cs
  show "((key, sub, left @ [c], cs), key, sub, left, c # cs)
        \<in> measure (\<lambda>(key, sub, left, s). length s)"
    by simp
qed

definition replaceAll :: "string \<Rightarrow> string \<Rightarrow> string \<Rightarrow> string" where
  "replaceAll key val s = replaceWith key (\<lambda>matched left right. getSubstitution matched left right val) [] s"

definition replacePlaceholders :: "string \<Rightarrow> (string \<times> string option) list \<Rightarrow> string" where
  "replacePlaceholders str vars =
     fold (\<lambda>(key, val) out. replaceAll key (case val of None \<Rightarrow> [] | Some v \<Rightarrow> v) out) vars str"

text \<open>
  Keys of a variable map, the shape of a placeholder token, and the test that some
  position of a text matches the expression of a key.
\<close>

definition isWordChar :: "char \<Rightarrow> bool" where
  "isWordChar c =
     (let n = (of_char c :: nat) in
      (48 \<le> n \<and> n \<le> 57) \<or> (65 \<le> n \<and> n \<le> 90) \<or> n = 95 \<or> (97 \<le> n \<and> n \<le> 122))"

definition wordKey :: "string \<Rightarrow> bool" where
  "wordKey key = list_all isWordChar key"

definition placeholder :: "string \<Rightarrow> string \<Rightarrow> string \<Rightarrow> string" where
  "placeholder w1 key w2 = ''{{'' @ w1 @ key @ w2 @ ''}}''"


text \<open>
  The substitution of one entry on the two sides of a fixed occurrence \<open>tok\<close>: \<open>p\<close> is
  the text before it and \<open>q\<close> the text after it. Both sides are scanned on their own;
  the occurrence and the other side are only visible to \<open>$`\<close> and \<open>$'\<close>. A value without
  a dollar sign is \<open>plainValue\<close>.
\<close>

fun splitStep :: "string \<Rightarrow> string \<times> string option \<Rightarrow> string \<times> string \<Rightarrow> string \<times> string" where
  "splitStep tok (key, val) (p, q) =
     (let v = (case val of None \<Rightarrow> [] | Some v \<Rightarrow> v) in
      (replaceWith key (\<lambda>matched left right. getSubstitution matched left (right @ tok @ q) v) [] p,
       replaceWith key (\<lambda>matched left right. getSubstitution matched left right v) (p @ tok) q))"

definition plainValue :: "string option \<Rightarrow> bool" where
  "plainValue val = (case val of None \<Rightarrow> True | Some v \<Rightarrow> CHR ''$'' \<notin> set v)"

section \<open>The variable map\<close>

text \<open>
  The answers of the prompts and the preset of the chosen stack. The preset files are read
  from JSON: a missing field is \<open>None\<close>, and \<open>x || d\<close> takes \<open>d\<close> for a missing or empty
  value. The older variant of the scaffolder asks fewer questions; it reads the same record
  and ignores the fields it has no prompt for. The migration prompt of the richer variant
  is shown in production mode only, and the command is empty otherwise.
\<close>

datatype stack = Node | Java | Python

datatype mode = Simple | Production

fun stackName :: "stack \<Rightarrow> string" where
  "stackName Node = ''node''"
| "stackName Java = ''java''"
| "stackName Python = ''python''"

record preset =
  defaultPort :: "nat option"
  runtimeVersion :: "string option"
  buildCommand :: "string option"
  healthPath :: "string option"

record answers =
  projectName :: string
  stack :: stack
  prodBranch :: string
  stagingBranch :: string
  installCommand :: string
  lintCommand :: string
  testCommand :: string
  useDocker :: bool
  mode :: mode
  migrationInput :: string

text \<open>
  \<open>projectName.toLowerCase().replace(/[^a-z0-9-_]/g, "")\<close>: within U+0000..U+00FF,
  \<open>toLowerCase\<close> maps \<open>A\<close>..\<open>Z\<close> and the capital letters U+00C0..U+00DE (without the
  multiplication sign U+00D7) to the letter 32 positions later; the character class keeps
  small letters, digits, the hyphen and the underscore.
\<close>

definition toLowerChar :: "char \<Rightarrow> char" where
  "toLowerChar c =
     (let n = (of_char c :: nat) in
      if (65 \<le> n \<and> n \<le> 90) \<or> (192 \<le> n \<and> n \<le> 222 \<and> n \<noteq> 215) then char_of (n + 32) else c)"

definition toLowerCase :: "string \<Rightarrow> string" where
  "toLowerCase s = map toLowerChar s"

definition slugChar :: "char \<Rightarrow> bool" where
  "slugChar c =
     (let n = (of_char c :: nat) in
      (97 \<le> n \<and> n \<le> 122) \<or> (48 \<le> n \<and> n \<le> 57) \<or> c = CHR ''-'' \<or> c = CHR ''_'')"

definition imageName :: "string \<Rightarrow> string" where
  "imageName name = filter slugChar (toLowerCase name)"

text \<open>\<open>String(preset.defaultPort || 3000)\<close>: the decimal digits of the port.\<close>

fun showNat :: "nat \<Rightarrow> string" where
  "showNat n = (if n < 10 then [char_of (48 + n)] else showNat (n div 10) @ [char_of (48 + n mod 10)])"

definition orElse :: "string option \<Rightarrow> string \<Rightarrow> string" where
  "orElse v d = (case v of None \<Rightarrow> d | Some s \<Rightarrow> if s = [] then d else s)"

definition portOf :: "preset \<Rightarrow> string" where
  "portOf p = showNat (case defaultPort p of None \<Rightarrow> 3000 | Some n \<Rightarrow> if n = 0 then 3000 else n)"

definition noBuildStep :: string where
  "noBuildStep = ''echo '' @ [CHR 0x22] @ ''No build step'' @ [CHR 0x22]"

definition migrationCommand :: "answers \<Rightarrow> string" where
  "migrationCommand a = (if mode a = Production then migrationInput a else [])"

text \<open>
  \<open>Object.entries(vars)\<close> of the two variants, in the order of the object literal. Every
  value is a string here, so none is absent.
\<close>

definition varsRich :: "answers \<Rightarrow> preset \<Rightarrow> (string \<times> string option) list" where
  "varsRich a p =
     [(''APP_NAME'', Some (imageName (projectName a))),
      (''IMAGE_NAME'', Some (imageName (projectName a))),
      (''PORT'', Some (portOf p)),
      (''RUNTIME_VERSION'', Some (orElse (runtimeVersion p) ''latest'')),
      (''INSTALL_COMMAND'', Some (installCommand a)),
      (''LINT_COMMAND'', Some (lintCommand a)),
      (''TEST_COMMAND'', Some (testCommand a)),
      (''BUILD_COMMAND'', Some (orElse (buildCommand p) noBuildStep)),
      (''PROD_BRANCH'', Some (prodBranch a)),
      (''STAGING_BRANCH'', Some (stagingBranch a)),
      (''MIGRATION_COMMAND'', Some (trim (migrationCommand a))),
      (''HEALTH_PATH'', Some (orElse (healthPath p) ''/health''))]"

definition varsOld :: "answers \<Rightarrow> preset \<Rightarrow> (string \<times> string option) list" where
  "varsOld a p =
     [(''APP_NAME'', Some (projectName a)),
      (''IMAGE_NAME'', Some (imageName (projectName a))),
      (''PORT'', Some (portOf p)),
      (''INSTALL_COMMAND'', Some (installCommand a)),
      (''TEST_COMMAND'', Some (testCommand a)),
      (''BUILD_COMMAND'', Some (orElse (buildCommand p) noBuildStep)),
      (''PROD_BRANCH'', Some (prodBranch a)),
      (''MIGRATION_COMMAND'', Some (migrationInput a))]"

section \<open>The file system\<close>

text \<open>
  A path is the list of its components, \<open>path.join\<close> appends and \<open>path.dirname\<close> is
  \<open>butlast\<close>. The file system maps a path to a file (its content and whether the owner may
  execute it) or to a directory; the root always exists. An operation takes the file system
  and returns an error or a value, together with the file system it leaves; \<open>bindIO\<close> stops
  at the first error, as an exception that nothing catches does.
\<close>

type_synonym path = "string list"

datatype node = File string bool | Dir

type_synonym fs = "path \<Rightarrow> node option"

datatype error = ENOENT path | EISDIR path | ENOTDIR path | EEXIST path

type_synonym 'a io = "fs \<Rightarrow> (error + 'a) \<times> fs"

definition returnIO :: "'a \<Rightarrow> 'a io" where
  "returnIO x = (\<lambda>s. (Inr x, s))"

definition bindIO :: "'a io \<Rightarrow> ('a \<Rightarrow> 'b io) \<Rightarrow> 'b io" where
  "bindIO m f = (\<lambda>s. case m s of (Inl e, s') \<Rightarrow> (Inl e, s') | (Inr x, s') \<Rightarrow> f x s')"

definition thenIO :: "unit io \<Rightarrow> 'b io \<Rightarrow> 'b io" where
  "thenIO m n = bindIO m (\<lambda>_. n)"

definition stat :: "fs \<Rightarrow> path \<Rightarrow> node option" where
  "stat s p = (if p = [] then Some Dir else s p)"

definition existsSync :: "fs \<Rightarrow> path \<Rightarrow> bool" where
  "existsSync s p = (stat s p \<noteq> None)"

definition isFile :: "node option \<Rightarrow> bool" where
  "isFile n = (case n of Some (File c e) \<Rightarrow> True | _ \<Rightarrow> False)"

text \<open>
  \<open>fs.mkdirSync(p, {recursive: true})\<close> creates the missing directories on the way to \<open>p\<close>
  and fails when a file is in the way; \<open>fs.writeFileSync\<close> replaces the whole content and
  keeps the mode of an existing file; \<open>fs.chmodSync(p, 0o755)\<close> makes a file executable.
\<close>

definition ancestorsOf :: "path \<Rightarrow> path list" where
  "ancestorsOf p = map (\<lambda>n. take n p) [1..<Suc (length p)]"

definition mkdirRecursive :: "path \<Rightarrow> unit io" where
  "mkdirRecursive p = (\<lambda>s.
     case find (\<lambda>q. isFile (s q)) (ancestorsOf p) of
       Some q \<Rightarrow> (Inl (if q = p then EEXIST p else ENOTDIR p), s)
     | None \<Rightarrow>
         (Inr (), (\<lambda>q. case s q of
                          None \<Rightarrow> if q \<in> set (ancestorsOf p) then Some Dir else None
                        | Some n \<Rightarrow> Some n)))"

definition writeFileSync :: "path \<Rightarrow> string \<Rightarrow> unit io" where
  "writeFileSync p content = (\<lambda>s.
     case stat s (butlast p) of
       None \<Rightarrow> (Inl (ENOENT p), s)
     | Some (File c e) \<Rightarrow> (Inl (ENOTDIR p), s)
     | Some Dir \<Rightarrow>
         (case stat s p of
            Some Dir \<Rightarrow> (Inl (EISDIR p), s)
          | Some (File c e) \<Rightarrow> (Inr (), s(p \<mapsto> File content e))
          | None \<Rightarrow> (Inr (), s(p \<mapsto> File content False))))"

definition readFileSync :: "path \<Rightarrow> string io" where
  "readFileSync p = (\<lambda>s.
     case stat s p of
       Some (File c e) \<Rightarrow> (Inr c, s)
     | Some Dir \<Rightarrow> (Inl (EISDIR p), s)
     | None \<Rightarrow> (Inl (ENOENT p), s))"

definition chmodSync :: "path \<Rightarrow> unit io" where
  "chmodSync p = (\<lambda>s.
     case stat s p of
       Some (File c e) \<Rightarrow> (Inr (), s(p \<mapsto> File c True))
     | Some Dir \<Rightarrow> (Inr (), s)
     | None \<Rightarrow> (Inl (ENOENT p), s))"

section \<open>The interactive scaffolder\<close>

text \<open>
  \<open>readTemplate\<close>, \<open>writeFile\<close> and \<open>makeExecutable\<close> (which swallows the error of
  \<open>chmodSync\<close>) as in the source; \<open>root\<close> is the package directory that holds
  \<open>templates\<close>. \<open>forEachIO\<close> is the \<open>for ... of\<close> loop over the script table,
  \<open>unlessExists p m\<close> is \<open>if (!fs.existsSync(p)) m\<close>, and \<open>whenIO b m\<close> is \<open>if (b) m\<close>.
\<close>

definition readTemplate :: "path \<Rightarrow> path \<Rightarrow> string io" where
  "readTemplate root relPath = readFileSync (root @ ''templates'' # relPath)"

definition writeFile :: "path \<Rightarrow> string \<Rightarrow> unit io" where
  "writeFile targetPath content =
     thenIO (mkdirRecursive (butlast targetPath)) (writeFileSync targetPath content)"

definition makeExecutable :: "path \<Rightarrow> unit io" where
  "makeExecutable p = (\<lambda>s. (Inr (), snd (chmodSync p s)))"

fun forEachIO :: "('a \<Rightarrow> unit io) \<Rightarrow> 'a list \<Rightarrow> unit io" where
  "forEachIO f [] = returnIO ()"
| "forEachIO f (x # xs) = thenIO (f x) (forEachIO f xs)"

definition unlessExists :: "path \<Rightarrow> unit io \<Rightarrow> unit io" where
  "unlessExists p m = (\<lambda>s. if \<not> existsSync s p then m s else (Inr (), s))"

definition whenIO :: "bool \<Rightarrow> unit io \<Rightarrow> unit io" where
  "whenIO b m = (if b then m else returnIO ())"

text \<open>
  The block that writes the Dockerfile and, when there is none yet, the \<open>.dockerignore\<close>
  file. The source has the same statements twice, in simple mode and in production mode.
\<close>

definition dockerFiles :: "path \<Rightarrow> path \<Rightarrow> stack \<Rightarrow> (string \<times> string option) list \<Rightarrow> unit io" where
  "dockerFiles cwd root st vars =
     thenIO
       (bindIO (readTemplate root [''docker'', ''Dockerfile.'' @ stackName st @ ''.template''])
          (\<lambda>t. writeFile (cwd @ [''Dockerfile'']) (replacePlaceholders t vars)))
       (unlessExists (cwd @ [''.dockerignore''])
          (bindIO (readTemplate root [''docker'', ''.dockerignore.template''])
             (\<lambda>t. writeFile (cwd @ [''.dockerignore'']) t)))"

text \<open>
  \<open>main\<close> of the richer variant after the prompts: simple mode writes one workflow,
  production mode writes five workflows and three scripts; both end with the Docker block
  when Docker is enabled. The summary printed at the end writes no file.
\<close>

definition mainRich :: "path \<Rightarrow> path \<Rightarrow> (stack \<Rightarrow> preset) \<Rightarrow> answers \<Rightarrow> unit io" where
  "mainRich cwd root presets a =
     (let st = stack a;
          vars = varsRich a (presets st);
          workflowsOut = cwd @ [''.github'', ''workflows''];
          scriptsOut = cwd @ [''scripts'']
      in
      if mode a = Simple then
        thenIO
          (bindIO (readTemplate root [''workflows'', ''monolith.'' @ stackName st @ ''.yml.template''])
             (\<lambda>t. writeFile (workflowsOut @ [''monolith.yml'']) (replacePlaceholders t vars)))
          (whenIO (useDocker a) (dockerFiles cwd root st vars))
      else
        thenIO
          (bindIO (readTemplate root [''workflows'', ''ci.'' @ stackName st @ ''.yml.template''])
             (\<lambda>t. writeFile (workflowsOut @ [''ci.yml'']) (replacePlaceholders t vars)))
       (thenIO
          (bindIO (readTemplate root
                     [''workflows'', if useDocker a then ''build.docker.yml.template''
                                     else ''build.basic.yml.template''])
             (\<lambda>t. writeFile (workflowsOut @ [''build.yml'']) (replacePlaceholders t vars)))
       (thenIO
          (bindIO (readTemplate root [''workflows'', ''deploy.yml.template''])
             (\<lambda>t. let deployTpl = (if trim (migrationCommand a) = []
                                     then removeStepBlock t ''Run migrations'' else t)
                  in writeFile (workflowsOut @ [''deploy.yml'']) (replacePlaceholders deployTpl vars)))
       (thenIO
          (bindIO (readTemplate root [''workflows'', ''rollback.yml.template''])
             (\<lambda>t. writeFile (workflowsOut @ [''rollback.yml'']) (replacePlaceholders t vars)))
       (thenIO
          (bindIO (readTemplate root [''workflows'', ''security-scan.yml.template''])
             (\<lambda>t. writeFile (workflowsOut @ [''security-scan.yml'']) (replacePlaceholders t vars)))
       (thenIO
          (forEachIO
             (\<lambda>(tplRel, outName).
                thenIO
                  (bindIO (readTemplate root tplRel)
                     (\<lambda>t. writeFile (scriptsOut @ [outName]) (replacePlaceholders t vars)))
                  (makeExecutable (scriptsOut @ [outName])))
             [([''scripts'', ''deploy.sh.template''], ''deploy.sh''),
              ([''scripts'', ''rollback.sh.template''], ''rollback.sh''),
              ([''scripts'', ''health-check.sh.template''], ''health-check.sh'')])
          (whenIO (useDocker a) (dockerFiles cwd root st vars))))))))"

text \<open>
  \<open>main\<close> of the older variant. With an empty migration command it drops the lines of the
  deploy template that contain \<open>MIGRATION_COMMAND\<close> or, in capital or small letters, the
  words \<open>run migrations\<close>.
\<close>

definition stripMigrationLines :: "string \<Rightarrow> string" where
  "stripMigrationLines deployTpl =
     joinNL (filter (\<lambda>line. \<not> includesStr line ''MIGRATION_COMMAND'' \<and>
                            \<not> includesStr (toLowerCase line) ''run migrations'')
               (splitNL deployTpl))"

definition mainOld :: "path \<Rightarrow> path \<Rightarrow> (stack \<Rightarrow> preset) \<Rightarrow> answers \<Rightarrow> unit io" where
  "mainOld cwd root presets a =
     (let vars = varsOld a (presets (stack a));
          workflowsOut = cwd @ [''.github'', ''workflows''];
          scriptsOut = cwd @ [''scripts'']
      in
        thenIO
          (bindIO (readTemplate root [''workflows'', ''ci.yml.template''])
             (\<lambda>ciTpl. writeFile (workflowsOut @ [''ci.yml'']) (replacePlaceholders ciTpl vars)))
       (thenIO
          (if useDocker a then
             bindIO (readTemplate root [''workflows'', ''build.docker.yml.template''])
               (\<lambda>buildTpl. writeFile (workflowsOut @ [''build.yml'']) (replacePlaceholders buildTpl vars))
           else
             bindIO (readTemplate root [''workflows'', ''build.basic.yml.template''])
               (\<lambda>buildTpl. writeFile (workflowsOut @ [''build.yml'']) (replacePlaceholders buildTpl vars)))
       (thenIO
          (bindIO (readTemplate root [''workflows'', ''deploy.yml.template''])
             (\<lambda>t. let deployTpl = (if migrationInput a = [] \<or> trim (migrationInput a) = []
                                     then stripMigrationLines t else t)
                  in writeFile (workflowsOut @ [''deploy.yml'']) (replacePlaceholders deployTpl vars)))
       (thenIO
          (bindIO (readTemplate root [''workflows'', ''rollback.yml.template''])
             (\<lambda>rollbackTpl. writeFile (workflowsOut @ [''rollback.yml''])
                               (replacePlaceholders rollbackTpl vars)))
       (bindIO (readTemplate root [''scripts'', ''deploy.sh.template''])
          (\<lambda>deployT.
        bindIO (readTemplate root [''scripts'', ''rollback.sh.template''])
          (\<lambda>rollbackT.
        bindIO (readTemplate root [''scripts'', ''health-check.sh.template''])
          (\<lambda>healthT.
        thenIO (writeFile (scriptsOut @ [''deploy.sh'']) (replacePlaceholders deployT vars))
       (thenIO (writeFile (scriptsOut @ [''rollback.sh'']) (replacePlaceholders rollbackT vars))
       (thenIO (writeFile (scriptsOut @ [''health-check.sh'']) (replacePlaceholders healthT vars))
       (thenIO (makeExecutable (scriptsOut @ [''deploy.sh'']))
       (thenIO (makeExecutable (scriptsOut @ [''rollback.sh'']))
       (thenIO (makeExecutable (scriptsOut @ [''health-check.sh'']))
          (whenIO (useDocker a)
             (bindIO (readTemplate root
                        [''docker'',
                         if stack a = Java then ''Dockerfile.java.template''
                         else if stack a = Python then ''Dockerfile.python.template''
                         else ''Dockerfile.node.template''])
                (\<lambda>dockerTpl. writeFile (cwd @ [''Dockerfile''])
                                (replacePlaceholders dockerTpl vars)))))))))))))))))"

section \<open>The non-interactive scaffolder\<close>

text \<open>
  The workflow copier reads the template directory of the package with \<open>readdirSync\<close>,
  \<open>statSync\<close> and \<open>copyFileSync\<close> and writes below the working directory. The template
  directory is given as the tree that these calls see; it is not written by the run. The
  lines logged by \<open>copyFile\<close> are the outcomes; \<open>copyDir\<close> returns the ones logged so far
  also when a copy fails. \<open>mainIndex\<close> returns the exit code; \<open>targets\<close> lists the
  destinations of the files of a tree.
\<close>

datatype tnode = TFile string bool | TDir "(string \<times> tnode) list"

datatype outcome = Skipped path | Copied path

definition copyFileSync :: "string \<times> bool \<Rightarrow> path \<Rightarrow> unit io" where
  "copyFileSync src dest = (\<lambda>s.
     case stat s (butlast dest) of
       None \<Rightarrow> (Inl (ENOENT dest), s)
     | Some (File c e) \<Rightarrow> (Inl (ENOTDIR dest), s)
     | Some Dir \<Rightarrow>
         (case stat s dest of
            Some Dir \<Rightarrow> (Inl (EISDIR dest), s)
          | _ \<Rightarrow> (Inr (), s(dest \<mapsto> File (fst src) (snd src)))))"

definition copyFile :: "string \<times> bool \<Rightarrow> path \<Rightarrow> bool \<Rightarrow> outcome io" where
  "copyFile src dest force = (\<lambda>s.
     if existsSync s dest \<and> \<not> force then (Inr (Skipped dest), s)
     else
       thenIO (if \<not> existsSync s (butlast dest) then mkdirRecursive (butlast dest) else returnIO ())
      (thenIO (copyFileSync src dest)
         (returnIO (Copied dest))) s)"

fun copyDir :: "(string \<times> tnode) list \<Rightarrow> path \<Rightarrow> bool \<Rightarrow> fs \<Rightarrow> (error option \<times> outcome list) \<times> fs" where
  "copyDir [] destDir force s = ((None, []), s)"
| "copyDir ((entry, TDir sub) # entries) destDir force s =
     (case copyDir sub (destDir @ [entry]) force s of
        ((Some e, log), s1) \<Rightarrow> ((Some e, log), s1)
      | ((None, log), s1) \<Rightarrow>
          (case copyDir entries destDir force s1 of
             ((r, log2), s2) \<Rightarrow> ((r, log @ log2), s2)))"
| "copyDir ((entry, TFile c e) # entries) destDir force s =
     (case copyFile (c, e) (destDir @ [entry]) force s of
        (Inl err, s1) \<Rightarrow> ((Some err, []), s1)
      | (Inr out, s1) \<Rightarrow>
          (case copyDir entries destDir force s1 of
             ((r, log2), s2) \<Rightarrow> ((r, out # log2), s2)))"

definition mainIndex ::
  "(string \<times> tnode) list option \<Rightarrow> path \<Rightarrow> bool \<Rightarrow> fs \<Rightarrow> (nat \<times> outcome list) \<times> fs" where
  "mainIndex templates cwd force s =
     (case templates of
        None \<Rightarrow> ((1, []), s)
      | Some entries \<Rightarrow>
          if entries = [] then ((1, []), s)
          else (case copyDir entries (cwd @ [''.github'', ''workflows'']) force s of
                  ((Some e, log), s') \<Rightarrow> ((1, log), s')
                | ((None, log), s') \<Rightarrow> ((0, log), s')))"

fun targets :: "(string \<times> tnode) list \<Rightarrow> path \<Rightarrow> path list" where
  "targets [] destDir = []"
| "targets ((entry, TDir sub) # entries) destDir = targets sub (destDir @ [entry]) @ targets entries destDir"
| "targets ((entry, TFile c e) # entries) destDir = (destDir @ [entry]) # targets entries destDir"

section \<open>Assertions about runs\<close>

text \<open>
  \<open>keeps q m\<close>: whatever \<open>m\<close> does, an entry that exists at \<open>q\<close> is still there, unchanged,
  afterwards. \<open>ensures P m Q\<close>: a run of \<open>m\<close> that starts where \<open>P\<close> holds and does not fail
  ends where \<open>Q\<close> holds.
\<close>

definition keeps :: "path \<Rightarrow> 'a io \<Rightarrow> bool" where
  "keeps q m = (\<forall>s n. s q = Some n \<longrightarrow> snd (m s) q = Some n)"

definition ensures :: "(fs \<Rightarrow> bool) \<Rightarrow> 'a io \<Rightarrow> ('a \<Rightarrow> fs \<Rightarrow> bool) \<Rightarrow> bool" where
  "ensures P m Q = (\<forall>s x s'. P s \<longrightarrow> m s = (Inr x, s') \<longrightarrow> Q x s')"

section \<open>An example project\<close>

text \<open>
  A package with one short template per artifact and a project that already has a
  Dockerfile and a \<open>.dockerignore\<close> file of its own.
\<close>

definition demoPresets :: "stack \<Rightarrow> preset" where
  "demoPresets st = \<lparr>defaultPort = Some 80, runtimeVersion = None, buildCommand = None, healthPath = None\<rparr>"

definition demoAnswers :: answers where
  "demoAnswers = \<lparr>projectName = ''My App'', stack = Node, prodBranch = ''main'',
     stagingBranch = ''staging'', installCommand = ''npm ci'', lintCommand = ''npm run lint'',
     testCommand = ''npm test'', useDocker = True, mode = Production, migrationInput = [] \<rparr>"

definition demoFs :: fs where
  "demoFs = [
     [''pkg'', ''templates'', ''workflows'', ''ci.node.yml.template''] \<mapsto> File ''name: CI {{APP_NAME}}'' False,
     [''pkg'', ''templates'', ''workflows'', ''ci.yml.template''] \<mapsto> File ''name: CI {{APP_NAME}}'' False,
     [''pkg'', ''templates'', ''workflows'', ''build.docker.yml.template''] \<mapsto> File ''image: {{IMAGE_NAME}}'' False,
     [''pkg'', ''templates'', ''workflows'', ''deploy.yml.template''] \<mapsto>
        File ''steps:\<newline>  - name: Run migrations\<newline>    run: {{MIGRATION_COMMAND}}\<newline>  - name: Start {{APP_NAME}}'' False,
     [''pkg'', ''templates'', ''workflows'', ''rollback.yml.template''] \<mapsto> File ''rollback'' False,
     [''pkg'', ''templates'', ''workflows'', ''security-scan.yml.template''] \<mapsto> File ''scan'' False,
     [''pkg'', ''templates'', ''scripts'', ''deploy.sh.template''] \<mapsto> File ''PORT={{PORT}}'' False,
     [''pkg'', ''templates'', ''scripts'', ''rollback.sh.template''] \<mapsto> File ''rb'' False,
     [''pkg'', ''templates'', ''scripts'', ''health-check.sh.template''] \<mapsto> File ''hc'' False,
     [''pkg'', ''templates'', ''docker'', ''Dockerfile.node.template''] \<mapsto> File ''EXPOSE {{PORT}}'' False,
     [''pkg'', ''templates'', ''docker'', ''.dockerignore.template''] \<mapsto> File ''.git'' False,
     [''proj''] \<mapsto> Dir,
     [''proj'', ''Dockerfile''] \<mapsto> File ''FROM scratch'' False,
     [''proj'', ''.dockerignore''] \<mapsto> File ''node_modules'' False]"

text \<open>
  The same package with a deploy template whose migration step has a further body line.
\<close>

definition demoFsBody :: fs where
  "demoFsBody = demoFs(
     [''pkg'', ''templates'', ''workflows'', ''deploy.yml.template''] \<mapsto>
        File ''steps:\<newline>  - name: Run migrations\<newline>    run: {{MIGRATION_COMMAND}}\<newline>    env: keep\<newline>  - name: Start'' False)"

section \<open>Facts about splitting and joining lines\<close>

lemma splitNL_ne: "splitNL s \<noteq> []"
  by (induction s) (auto split: list.splits)

lemma joinNL_Cons_Cons: "joinNL ((c # l) # ls) = c # joinNL (l # ls)"
  by (cases ls) simp_all

lemma joinNL_splitNL: "joinNL (splitNL s) = s"
proof (induction s)
  case Nil
  show ?case by simp
next
  case (Cons c cs)
  obtain l ls where sp: "splitNL cs = l # ls"
    using splitNL_ne [of cs] by (cases "splitNL cs") auto
  show ?case
  proof (cases "c = CHR 0x0A")
    case True
    with Cons sp show ?thesis by simp
  next
    case False
    with Cons sp show ?thesis by (simp add: joinNL_Cons_Cons)
  qed
qed

lemma splitNL_line: "CHR 0x0A \<notin> set l \<Longrightarrow> splitNL l = [l]"
  by (induction l) auto

lemma splitNL_append: "CHR 0x0A \<notin> set l \<Longrightarrow> splitNL (l @ CHR 0x0A # r) = l # splitNL r"
  by (induction l) auto

lemma splitNL_joinNL:
  "ls \<noteq> [] \<Longrightarrow> \<forall>l\<in>set ls. CHR 0x0A \<notin> set l \<Longrightarrow> splitNL (joinNL ls) = ls"
proof (induction ls rule: joinNL.induct)
  case 1
  then show ?case by simp
next
  case (2 l)
  then show ?case by (simp add: splitNL_line)
next
  case (3 l m ls)
  then show ?case by (simp add: splitNL_append)
qed

section \<open>Facts about the step-block remover\<close>

lemma removeLoop_no_target:
  "\<forall>l\<in>set ls. \<not> startsTarget sub l \<Longrightarrow> removeLoop sub False ls = ls"
  by (induction ls) (auto simp: startsTarget_def isNameHeader_def Let_def)

lemma removeLoop_skip_keep:
  "includesStr (trim line) sub \<Longrightarrow> removeLoop sub True (line # rest) = removeLoop sub True rest"
  by (simp add: Let_def)


lemma removeLoop_skip_exit:
  "boundaryMatch line \<Longrightarrow> \<not> includesStr (trim line) sub \<Longrightarrow>
   removeLoop sub True (line # rest) = line # removeLoop sub False rest"
  by (simp add: Let_def)

lemma removeLoop_enter:
  "startsTarget sub line \<Longrightarrow> removeLoop sub False (line # rest) = removeLoop sub True rest"
  by (simp add: Let_def startsTarget_def isNameHeader_def)

lemma removeLoop_pass:
  "\<not> startsTarget sub line \<Longrightarrow> removeLoop sub False (line # rest) = line # removeLoop sub False rest"
  by (auto simp add: Let_def startsTarget_def isNameHeader_def)

lemma removeLoop_skip_all:
  "\<forall>l\<in>set ls. boundaryMatch l \<longrightarrow> includesStr (trim l) sub \<Longrightarrow> removeLoop sub True ls = []"
  by (induction ls) (auto simp: Let_def)

lemma removeLoop_skip_body:
  "\<forall>l\<in>set body. \<not> boundaryMatch l \<Longrightarrow>
   removeLoop sub True (body @ rest) = removeLoop sub True rest"
  by (induction body) (auto simp: Let_def)

lemma removeLoop_pass_body:
  "\<forall>l\<in>set body. \<not> startsTarget sub l \<Longrightarrow>
   removeLoop sub False (body @ rest) = body @ removeLoop sub False rest"
  by (induction body) (auto simp: removeLoop_pass simp del: removeLoop.simps)

lemma removeLoop_all_headers:
  "\<forall>l\<in>set ls. boundaryMatch l \<longrightarrow> includesStr (trim l) sub \<Longrightarrow>
   removeLoop sub False ls = takeWhile (\<lambda>l. \<not> startsTarget sub l) ls"
proof (induction ls)
  case Nil
  show ?case by simp
next
  case (Cons l ls)
  show ?case
  proof (cases "startsTarget sub l")
    case True
    with Cons.prems show ?thesis
      by (simp add: removeLoop_enter removeLoop_skip_all del: removeLoop.simps)
  next
    case False
    with Cons show ?thesis
      by (simp add: removeLoop_pass del: removeLoop.simps)
  qed
qed

lemma dropWhile_spaces: "\<forall>c\<in>set ws. isSpace c \<Longrightarrow> dropWhile isSpace (ws @ r) = dropWhile isSpace r"
  by (induction ws) auto

lemma trim_spaces: "\<forall>c\<in>set ws. isSpace c \<Longrightarrow> trim (ws @ r) = trim r"
  by (simp add: trim_def dropWhile_spaces)

lemma kw_head: "kw = ''- name:'' \<or> kw = ''- uses:'' \<or> kw = ''- run:'' \<Longrightarrow> \<exists>r. kw = CHR ''-'' # r"
  by auto

lemma boundaryMatch_indented:
  assumes "ws \<noteq> []" "\<forall>c\<in>set ws. isSpace c"
    and kw: "kw = ''- name:'' \<or> kw = ''- uses:'' \<or> kw = ''- run:''"
  shows "boundaryMatch (ws @ kw @ rst)"
proof -
  obtain r where r: "kw = CHR ''-'' # r" using kw_head [OF kw] by blast
  have "\<not> isSpace (CHR ''-'')" by (simp add: isSpace_def)
  then have d: "dropWhile isSpace (ws @ kw @ rst) = kw @ rst"
    using assms(2) r by (simp add: dropWhile_spaces)
  have "length (kw @ rst) \<noteq> length (ws @ kw @ rst)" using assms(1) by simp
  then have ne: "kw @ rst \<noteq> ws @ kw @ rst" by metis
  have "startsWith (kw @ rst) kw" by (simp add: startsWith_def)
  with d ne kw show ?thesis
    unfolding boundaryMatch_def Let_def by metis
qed


lemma header_facts:
  assumes "\<forall>c\<in>set i. isSpace c"
  shows "startsTarget ''B'' (i @ ''- name: B'')"
    and "\<not> startsTarget ''B'' (i @ ''- name: A'')"
    and "\<not> startsTarget ''B'' (i @ ''- name: C'')"
    and "\<not> includesStr (trim (i @ ''- name: C'')) ''B''"
  using assms
  by (simp_all add: startsTarget_def isNameHeader_def trim_spaces)
     (simp_all add: trim_def isSpace_def startsWith_def)

text \<open>
  Claim C5. If no line of the document both starts (after trimming) with \<open>- name:\<close> and
  contains the name substring, \<open>removeStepBlock\<close> returns the document unchanged, character
  for character. The function has no failing branch: for every pair of strings it returns
  a string.
\<close>

theorem removeStepBlock_no_match_identity:
  "\<forall>l\<in>set (splitNL doc). \<not> startsTarget sub l \<Longrightarrow> removeStepBlock doc sub = doc"
  by (simp add: removeStepBlock_def removeLoop_no_target joinNL_splitNL)

theorem removeStepBlock_no_match_identity_witness:
  "removeStepBlock ''steps:\<newline>  - name: Build\<newline>    run: make\<newline>  - uses: actions/checkout@v4\<newline>''
        ''Run migrations''
     = ''steps:\<newline>  - name: Build\<newline>    run: make\<newline>  - uses: actions/checkout@v4\<newline>''"
proof -
  have h: "\<forall>l\<in>set (splitNL ''steps:\<newline>  - name: Build\<newline>    run: make\<newline>  - uses: actions/checkout@v4\<newline>'').
      \<not> startsTarget ''Run migrations'' l"
    by (simp add: startsTarget_def isNameHeader_def trim_def isSpace_def startsWith_def)
  show ?thesis
    by (rule removeStepBlock_no_match_identity [OF h])
qed

text \<open>
  Claim C2. While skipping, a step-boundary line that contains the name substring does
  not end skipping and is dropped. Consequently, when every step header of the document
  contains the name substring, the result is exactly the lines before the first header
  that starts the removal; everything from that header to the end is removed.
\<close>

theorem removeStepBlock_all_headers_match:
  "(boundaryMatch line \<and> includesStr (trim line) sub \<longrightarrow>
      removeLoop sub True (line # rest) = removeLoop sub True rest)
   \<and> ((\<forall>l\<in>set (splitNL doc). isStepHeader l \<longrightarrow> includesStr (trim l) sub) \<longrightarrow>
      removeStepBlock doc sub
        = joinNL (takeWhile (\<lambda>l. \<not> startsTarget sub l) (splitNL doc)))"
proof (intro conjI impI)
  assume "boundaryMatch line \<and> includesStr (trim line) sub"
  then show "removeLoop sub True (line # rest) = removeLoop sub True rest"
    by (simp add: removeLoop_skip_keep del: removeLoop.simps)
next
  assume "\<forall>l\<in>set (splitNL doc). isStepHeader l \<longrightarrow> includesStr (trim l) sub"
  then have "\<forall>l\<in>set (splitNL doc). boundaryMatch l \<longrightarrow> includesStr (trim l) sub"
    by (simp add: isStepHeader_def)
  then show "removeStepBlock doc sub
               = joinNL (takeWhile (\<lambda>l. \<not> startsTarget sub l) (splitNL doc))"
    by (simp add: removeStepBlock_def removeLoop_all_headers)
qed

theorem removeStepBlock_all_headers_match_witness:
  "(boundaryMatch ''  - name: Deploy B'' \<and> includesStr (trim ''  - name: Deploy B'') ''Deploy'')
   \<and> removeLoop ''Deploy'' True [''  - name: Deploy B'', ''    run: b'']
       = removeLoop ''Deploy'' True [''    run: b'']
   \<and> removeStepBlock ''steps:\<newline>  - name: Deploy A\<newline>    run: a\<newline>  - name: Deploy B\<newline>    run: b'' ''Deploy''
       = ''steps:''"
proof -
  have h1: "boundaryMatch ''  - name: Deploy B'' \<and> includesStr (trim ''  - name: Deploy B'') ''Deploy''"
    by (simp add: boundaryMatch_def trim_def isSpace_def startsWith_def)
  have h2: "\<forall>l\<in>set (splitNL ''steps:\<newline>  - name: Deploy A\<newline>    run: a\<newline>  - name: Deploy B\<newline>    run: b'').
         isStepHeader l \<longrightarrow> includesStr (trim l) ''Deploy''"
    by (simp add: isStepHeader_def isNameHeader_def boundaryMatch_def trim_def isSpace_def
                  startsWith_def)
  have t: "takeWhile (\<lambda>l. \<not> startsTarget ''Deploy'' l)
             (splitNL ''steps:\<newline>  - name: Deploy A\<newline>    run: a\<newline>  - name: Deploy B\<newline>    run: b'')
           = [''steps:'']"
    by (simp add: startsTarget_def isNameHeader_def trim_def isSpace_def startsWith_def)
  from removeStepBlock_all_headers_match
         [of "''  - name: Deploy B''" "''Deploy''" "[''    run: b'']"
             "''steps:\<newline>  - name: Deploy A\<newline>    run: a\<newline>  - name: Deploy B\<newline>    run: b''"]
       h1 h2 t
  show ?thesis by simp
qed

text \<open>
  Three step blocks with the headers \<open>- name: A\<close>, \<open>- name: B\<close> and \<open>- name: C\<close> in this
  order, after an optional preamble. When the body of \<open>B\<close> holds no line of the boundary
  shape and the header of \<open>C\<close> is indented, removing \<open>B\<close> returns the preamble, the \<open>A\<close>
  block and the \<open>C\<close> block verbatim and nothing else; when the \<open>B\<close> block is the last one,
  it is removed up to the end of the document.
\<close>

theorem removeStepBlock_three_steps:
  assumes iA: "\<forall>c\<in>set iA. isSpace c" and iB: "\<forall>c\<in>set iB. isSpace c"
    and iC: "iC \<noteq> []" "\<forall>c\<in>set iC. isSpace c"
    and nl: "\<forall>l\<in>set (pre @ bA @ bB @ bC @ [iA, iB, iC]). CHR 0x0A \<notin> set l"
    and plain: "\<forall>l\<in>set (pre @ bA @ bC). \<not> isNameHeader l"
    and bodyB: "\<forall>l\<in>set bB. \<not> boundaryMatch l"
  shows "removeStepBlock
           (joinNL (pre @ (iA @ ''- name: A'') # bA @ (iB @ ''- name: B'') # bB @
                    (iC @ ''- name: C'') # bC)) ''B''
         = joinNL (pre @ (iA @ ''- name: A'') # bA @ (iC @ ''- name: C'') # bC)
       \<and> removeStepBlock
           (joinNL (pre @ (iA @ ''- name: A'') # bA @ (iB @ ''- name: B'') # bB)) ''B''
         = joinNL (pre @ (iA @ ''- name: A'') # bA)"
proof -
  let ?hA = "iA @ ''- name: A''" and ?hB = "iB @ ''- name: B''" and ?hC = "iC @ ''- name: C''"
  have nt: "\<forall>l\<in>set (pre @ ?hA # bA). \<not> startsTarget ''B'' l"
    using plain header_facts(2) [OF iA] by (auto simp: startsTarget_def)
  have ntC: "\<forall>l\<in>set bC. \<not> startsTarget ''B'' l"
    using plain by (auto simp: startsTarget_def)
  have bC: "boundaryMatch ?hC"
    using boundaryMatch_indented [OF iC, of "''- name:''" "'' C''"] by simp
  have loop_tail: "removeLoop ''B'' True (bB @ ?hC # bC) = ?hC # bC"
    using bodyB bC header_facts(4) [OF iC(2)] ntC
    by (simp add: removeLoop_skip_body removeLoop_skip_exit removeLoop_no_target
             del: removeLoop.simps)
  have loop1: "removeLoop ''B'' False (pre @ ?hA # bA @ ?hB # bB @ ?hC # bC)
               = pre @ ?hA # bA @ ?hC # bC"
    using removeLoop_pass_body [OF nt, of "?hB # bB @ ?hC # bC"]
          removeLoop_enter [OF header_facts(1) [OF iB], of "bB @ ?hC # bC"] loop_tail
    by simp
  have "removeLoop ''B'' True (bB @ []) = []"
    using bodyB by (simp only: removeLoop_skip_body removeLoop.simps)
  then have loop2: "removeLoop ''B'' False (pre @ ?hA # bA @ ?hB # bB) = pre @ ?hA # bA"
    using removeLoop_pass_body [OF nt, of "?hB # bB"]
          removeLoop_enter [OF header_facts(1) [OF iB], of "bB"]
    by simp
  have nl1: "\<forall>l\<in>set (pre @ ?hA # bA @ ?hB # bB @ ?hC # bC). CHR 0x0A \<notin> set l"
    using nl by auto
  have nl2: "\<forall>l\<in>set (pre @ ?hA # bA @ ?hB # bB). CHR 0x0A \<notin> set l"
    using nl by auto
  have s1: "splitNL (joinNL (pre @ ?hA # bA @ ?hB # bB @ ?hC # bC))
            = pre @ ?hA # bA @ ?hB # bB @ ?hC # bC"
    by (rule splitNL_joinNL [OF _ nl1]) simp
  have s2: "splitNL (joinNL (pre @ ?hA # bA @ ?hB # bB)) = pre @ ?hA # bA @ ?hB # bB"
    by (rule splitNL_joinNL [OF _ nl2]) simp
  show ?thesis
    unfolding removeStepBlock_def s1 s2 loop1 loop2 by simp
qed

theorem removeStepBlock_three_steps_witness:
  "removeStepBlock
     ''steps:\<newline>  - name: A\<newline>    run: a\<newline>  - name: B\<newline>    run: b\<newline>    env: x\<newline>  - name: C\<newline>    run: c''
     ''B''
   = ''steps:\<newline>  - name: A\<newline>    run: a\<newline>  - name: C\<newline>    run: c''
   \<and> removeStepBlock
     ''steps:\<newline>  - name: A\<newline>    run: a\<newline>  - name: B\<newline>    run: b\<newline>    env: x''
     ''B''
   = ''steps:\<newline>  - name: A\<newline>    run: a''"
proof -
  have sp: "\<forall>c\<in>set ''  ''. isSpace c" by (simp add: isSpace_def)
  have ne: "''  '' \<noteq> []" by simp
  have nl: "\<forall>l\<in>set ([''steps:''] @ [''    run: a''] @ [''    run: b'', ''    env: x''] @
                      [''    run: c''] @ [''  '', ''  '', ''  '']). CHR 0x0A \<notin> set l"
    by simp
  have plain: "\<forall>l\<in>set ([''steps:''] @ [''    run: a''] @ [''    run: c'']). \<not> isNameHeader l"
    by (simp add: isNameHeader_def trim_def isSpace_def startsWith_def)
  have bodyB: "\<forall>l\<in>set [''    run: b'', ''    env: x'']. \<not> boundaryMatch l"
    by (simp add: boundaryMatch_def isSpace_def startsWith_def)
  from removeStepBlock_three_steps [OF sp sp ne sp nl plain bodyB]
  show ?thesis by simp
qed

text \<open>
  Claim C4 at a document whose step \<open>B\<close> has a nested list under \<open>with:\<close>. The comments
  of \<open>removeStepBlock\<close> promise the removal of the step and everything under it until the
  next sibling step at the same indentation. The first nested \<open>- run:\<close> item ends the
  removal although it is indented more deeply than the header of \<open>B\<close>: the two nested
  lines of the body of \<open>B\<close> stay in the result, with \<open>B\<close> in the middle and with \<open>B\<close> as
  the last step.
\<close>

theorem removeStepBlock_nested_item_kept:
  "removeStepBlock
     ''steps:\<newline>  - name: A\<newline>    run: a\<newline>  - name: B\<newline>    with:\<newline>      - run: x\<newline>      - run: y\<newline>  - name: C\<newline>    run: c''
     ''B''
   = ''steps:\<newline>  - name: A\<newline>    run: a\<newline>      - run: x\<newline>      - run: y\<newline>  - name: C\<newline>    run: c''
   \<and> removeStepBlock
     ''steps:\<newline>  - name: A\<newline>    run: a\<newline>  - name: B\<newline>    with:\<newline>      - run: x\<newline>      - run: y''
     ''B''
   = ''steps:\<newline>  - name: A\<newline>    run: a\<newline>      - run: x\<newline>      - run: y''"
  by code_simp




section \<open>Facts about placeholder substitution\<close>

lemma wordChar_plain:
  "isWordChar c \<Longrightarrow> \<not> isSpace c \<and> c \<noteq> CHR ''{'' \<and> c \<noteq> CHR ''}''"
  by (auto simp: isWordChar_def isSpace_def Let_def)

lemma wordKey_plain:
  "wordKey key \<Longrightarrow> c \<in> set key \<Longrightarrow> \<not> isSpace c \<and> c \<noteq> CHR ''{'' \<and> c \<noteq> CHR ''}''"
  by (simp add: wordKey_def list_all_iff wordChar_plain)

lemma dropWhile_spaces_stop:
  "\<forall>c\<in>set w. isSpace c \<Longrightarrow> x = [] \<or> \<not> isSpace (hd x) \<Longrightarrow> dropWhile isSpace (w @ x) = x"
  by (cases x) (simp_all add: dropWhile_spaces)

lemma startsWith_append: "startsWith (p @ x) p"
  by (simp add: startsWith_def)

lemma startsWith_split: "startsWith x p \<Longrightarrow> x = p @ drop (length p) x"
  unfolding startsWith_def by (metis append_take_drop_id)

lemma spaces_split: "x = takeWhile isSpace x @ dropWhile isSpace x"
  by simp

lemma placeholderRest_SomeD:
  assumes "placeholderRest key s = Some rest"
  shows "\<exists>w1 w2. s = ''{{'' @ w1 @ key @ w2 @ ''}}'' @ rest \<and>
                 (\<forall>c\<in>set w1. isSpace c) \<and> (\<forall>c\<in>set w2. isSpace c)"
proof -
  define r where "r = dropWhile isSpace (drop 2 s)"
  define r2 where "r2 = dropWhile isSpace (drop (length key) r)"
  from assms have a: "startsWith s ''{{''" and b: "startsWith r key"
    and c: "startsWith r2 ''}}''" and d: "rest = drop 2 r2"
    by (auto simp: placeholderRest_def Let_def r_def r2_def split: if_splits)
  have 1: "s = ''{{'' @ drop 2 s" using startsWith_split [OF a] by (simp add: numeral_2_eq_2)
  have 2: "drop 2 s = takeWhile isSpace (drop 2 s) @ r" by (simp add: r_def)
  have 3: "r = key @ drop (length key) r" by (rule startsWith_split [OF b])
  have 4: "drop (length key) r = takeWhile isSpace (drop (length key) r) @ r2"
    by (simp add: r2_def)
  have 5: "r2 = ''}}'' @ rest" using startsWith_split [OF c] d by (simp add: numeral_2_eq_2)
  let ?w1 = "takeWhile isSpace (drop 2 s)" and ?w2 = "takeWhile isSpace (drop (length key) r)"
  have "s = ''{{'' @ ?w1 @ key @ ?w2 @ ''}}'' @ rest"
    using 1 2 3 4 5 by metis
  moreover have "\<forall>c\<in>set ?w1. isSpace c" by (auto dest: set_takeWhileD)
  moreover have "\<forall>c\<in>set ?w2. isSpace c" by (auto dest: set_takeWhileD)
  ultimately show ?thesis by blast
qed

lemma closing_not_space: "\<not> isSpace (CHR ''}'')"
  by (simp add: isSpace_def)

lemma placeholderRest_token:
  assumes k: "wordKey key" and w1: "\<forall>c\<in>set w1. isSpace c" and w2: "\<forall>c\<in>set w2. isSpace c"
  shows "placeholderRest key (''{{'' @ w1 @ key @ w2 @ ''}}'' @ rest) = Some rest"
proof -
  define r where "r = dropWhile isSpace (w1 @ key @ w2 @ ''}}'' @ rest)"
  have tail: "dropWhile isSpace (w2 @ ''}}'' @ rest) = ''}}'' @ rest"
    using dropWhile_spaces_stop [OF w2, of "''}}'' @ rest"] closing_not_space by simp
  have r: "r = key @ w2 @ ''}}'' @ rest \<or> (key = [] \<and> r = ''}}'' @ rest)"
  proof (cases key)
    case Nil
    then show ?thesis using tail w1 by (simp add: r_def dropWhile_spaces)
  next
    case (Cons a as)
    then have "\<not> isSpace (hd (key @ w2 @ ''}}'' @ rest))"
      using wordKey_plain [OF k, of a] by simp
    then show ?thesis
      using dropWhile_spaces_stop [OF w1, of "key @ w2 @ ''}}'' @ rest"] by (simp add: r_def)
  qed
  have sk: "startsWith r key" using r by (auto simp: startsWith_def)
  have "dropWhile isSpace (drop (length key) r) = ''}}'' @ rest"
    using r tail closing_not_space by auto
  then show ?thesis
    using sk by (simp add: placeholderRest_def Let_def r_def startsWith_def)
qed

lemma append_eq_no_char:
  assumes "xs @ c # ys = body @ rest" and "c \<notin> set body"
  shows "\<exists>u. xs = body @ u \<and> rest = u @ c # ys"
proof -
  from assms(1) obtain us where
    "(xs = body @ us \<and> us @ c # ys = rest) \<or> (xs @ us = body \<and> c # ys = us @ rest)"
    by (auto simp: append_eq_append_conv2)
  then show ?thesis
  proof
    assume "xs = body @ us \<and> us @ c # ys = rest"
    then show ?thesis by auto
  next
    assume a: "xs @ us = body \<and> c # ys = us @ rest"
    show ?thesis
    proof (cases us)
      case Nil
      with a show ?thesis by auto
    next
      case (Cons u us')
      with a have "c \<in> set body" by auto
      with assms(2) show ?thesis by simp
    qed
  qed
qed

text \<open>The characters after the opening braces of a match hold no opening brace.\<close>

lemma match_body_no_brace:
  assumes "wordKey key" "\<forall>c\<in>set w1. isSpace c" "\<forall>c\<in>set w2. isSpace c"
  shows "CHR ''{'' \<notin> set (w1 @ key @ w2 @ ''}}'')"
proof -
  have "\<not> isSpace (CHR ''{'')" by (simp add: isSpace_def)
  then show ?thesis using assms wordKey_plain [OF assms(1)] by auto
qed

lemma no_straddle:
  assumes k: "wordKey key"
    and m: "placeholderRest key (u @ CHR ''{'' # CHR ''{'' # t) = Some rest"
    and u: "u \<noteq> []"
  shows "\<exists>m u'. u = m @ u' \<and> rest = u' @ CHR ''{'' # CHR ''{'' # t \<and> m \<noteq> [] \<and>
                (\<forall>r. placeholderRest key (m @ r) = Some r)"
proof -
  from placeholderRest_SomeD [OF m] obtain w1 w2 where
    eq: "u @ CHR ''{'' # CHR ''{'' # t = ''{{'' @ w1 @ key @ w2 @ ''}}'' @ rest"
    and w1: "\<forall>c\<in>set w1. isSpace c" and w2: "\<forall>c\<in>set w2. isSpace c"
    by blast
  let ?body = "w1 @ key @ w2 @ ''}}''"
  have nb: "CHR ''{'' \<notin> set ?body" by (rule match_body_no_brace [OF k w1 w2])
  have tok: "\<forall>r. placeholderRest key ((''{{'' @ ?body) @ r) = Some r"
    using placeholderRest_token [OF k w1 w2] by simp
  show ?thesis
  proof (cases u)
    case Nil
    with u show ?thesis by simp
  next
    case (Cons a u1)
    show ?thesis
    proof (cases u1)
      case Nil
      with Cons eq have "CHR ''{'' # t = ?body @ rest" by simp
      then have "CHR ''{'' \<in> set ?body" by (cases w1; cases key; cases w2) auto
      with nb show ?thesis by blast
    next
      case (Cons b u2)
      with \<open>u = a # u1\<close> eq have ab: "a = CHR ''{''" "b = CHR ''{''"
        and e2: "u2 @ CHR ''{'' # (CHR ''{'' # t) = ?body @ rest"
        by simp_all
      from append_eq_no_char [OF e2 nb] obtain u' where
        "u2 = ?body @ u'" "rest = u' @ CHR ''{'' # CHR ''{'' # t" by blast
      with ab Cons \<open>u = a # u1\<close> have "u = (''{{'' @ ?body) @ u'" by simp
      with tok \<open>rest = u' @ CHR ''{'' # CHR ''{'' # t\<close> show ?thesis
        by (intro exI [of _ "''{{'' @ ?body"] exI [of _ u']) simp
    qed
  qed
qed

lemma key_of_body:
  assumes k: "wordKey key" and w1: "\<forall>c\<in>set w1. isSpace c" and w2: "\<forall>c\<in>set w2. isSpace c"
  shows "takeWhile isWordChar (dropWhile isSpace (w1 @ key @ w2 @ CHR ''}'' # x)) = key"
proof -
  have nw: "\<not> isWordChar (CHR ''}'')" by (simp add: isWordChar_def)
  have ns: "\<not> isSpace (CHR ''}'')" by (simp add: isSpace_def)
  have kw: "\<forall>c\<in>set key. isWordChar c" using k by (simp add: wordKey_def list_all_iff)
  have sw: "\<forall>c\<in>set w2. \<not> isWordChar c" using w2 wordChar_plain by blast
  have tail: "takeWhile isWordChar (w2 @ CHR ''}'' # x) = []"
    using sw nw by (cases w2) auto
  have kt: "takeWhile isWordChar (key @ w2 @ CHR ''}'' # x) = key"
    using kw tail by simp
  show ?thesis
  proof (cases key)
    case Nil
    have "dropWhile isSpace ((w1 @ w2) @ CHR ''}'' # x) = CHR ''}'' # x"
      by (rule dropWhile_spaces_stop) (use w1 w2 ns in auto)
    with Nil nw show ?thesis by simp
  next
    case (Cons a as)
    then have "\<not> isSpace (hd (key @ w2 @ CHR ''}'' # x))"
      using wordKey_plain [OF k, of a] by simp
    then have "dropWhile isSpace (w1 @ key @ w2 @ CHR ''}'' # x) = key @ w2 @ CHR ''}'' # x"
      using dropWhile_spaces_stop [OF w1, of "key @ w2 @ CHR ''}'' # x"] by simp
    with kt show ?thesis by simp
  qed
qed

lemma placeholderRest_at_token:
  assumes k: "wordKey key" and k': "wordKey k'"
    and w1: "\<forall>c\<in>set w1. isSpace c" and w2: "\<forall>c\<in>set w2. isSpace c"
  shows "placeholderRest key (placeholder w1 k' w2 @ post) = (if key = k' then Some post else None)"
proof (cases "key = k'")
  case True
  then show ?thesis
    using placeholderRest_token [OF k w1 w2, of post] by (simp add: placeholder_def)
next
  case False
  have "placeholderRest key (placeholder w1 k' w2 @ post) = None"
  proof (rule ccontr)
    assume "placeholderRest key (placeholder w1 k' w2 @ post) \<noteq> None"
    then obtain rest where "placeholderRest key (placeholder w1 k' w2 @ post) = Some rest"
      by auto
    from placeholderRest_SomeD [OF this] obtain v1 v2 where
      eq: "placeholder w1 k' w2 @ post = ''{{'' @ v1 @ key @ v2 @ ''}}'' @ rest"
      and v1: "\<forall>c\<in>set v1. isSpace c" and v2: "\<forall>c\<in>set v2. isSpace c" by blast
    from eq have "w1 @ k' @ w2 @ CHR ''}'' # (CHR ''}'' # post)
                  = v1 @ key @ v2 @ CHR ''}'' # (CHR ''}'' # rest)"
      by (simp add: placeholder_def)
    then have "takeWhile isWordChar (dropWhile isSpace (w1 @ k' @ w2 @ CHR ''}'' # (CHR ''}'' # post)))
               = takeWhile isWordChar (dropWhile isSpace (v1 @ key @ v2 @ CHR ''}'' # (CHR ''}'' # rest)))"
      by (rule arg_cong)
    then have "k' = key"
      by (simp only: key_of_body [OF k' w1 w2] key_of_body [OF k v1 v2])
    with False show False by simp
  qed
  with False show ?thesis by simp
qed

lemma placeholderRest_needs_braces:
  "\<not> startsWith s ''{{'' \<Longrightarrow> placeholderRest key s = None"
  by (simp add: placeholderRest_def)

lemma replaceWith_no_brace:
  "CHR ''{'' \<notin> set b \<Longrightarrow> replaceWith key sub left (b @ post) = b @ replaceWith key sub (left @ b) post"
proof (induction b arbitrary: left)
  case Nil
  show ?case by simp
next
  case (Cons c b)
  then have "\<not> startsWith (c # b @ post) ''{{''" by (auto simp: startsWith_def)
  then have "placeholderRest key (c # b @ post) = None" by (rule placeholderRest_needs_braces)
  with Cons show ?case by simp
qed

lemma replaceWith_other_token:
  assumes k: "wordKey key" and k': "wordKey k'" and ne: "key \<noteq> k'"
    and w1: "\<forall>c\<in>set w1. isSpace c" and w2: "\<forall>c\<in>set w2. isSpace c"
  shows "replaceWith key sub left (placeholder w1 k' w2 @ post)
         = placeholder w1 k' w2 @ replaceWith key sub (left @ placeholder w1 k' w2) post"
proof -
  let ?body = "w1 @ k' @ w2 @ ''}}''"
  have nb: "CHR ''{'' \<notin> set ?body" by (rule match_body_no_brace [OF k' w1 w2])
  have tok: "placeholder w1 k' w2 @ post = CHR ''{'' # CHR ''{'' # ?body @ post"
    by (simp add: placeholder_def)
  have 1: "placeholderRest key (CHR ''{'' # CHR ''{'' # ?body @ post) = None"
    using placeholderRest_at_token [OF k k' w1 w2, of post] ne by (simp add: tok)
  have "hd (?body @ post) \<in> set ?body" by (cases w1; cases k'; cases w2) auto
  with nb have "hd (?body @ post) \<noteq> CHR ''{''" by metis
  then have "\<not> startsWith (CHR ''{'' # ?body @ post) ''{{''"
    by (cases "?body @ post") (auto simp: startsWith_def)
  then have 2: "placeholderRest key (CHR ''{'' # ?body @ post) = None"
    by (rule placeholderRest_needs_braces)
  have "replaceWith key sub left (CHR ''{'' # CHR ''{'' # ?body @ post)
        = CHR ''{'' # CHR ''{'' # replaceWith key sub (left @ ''{{'') (?body @ post)"
    using 1 2 by simp
  also have "\<dots> = CHR ''{'' # CHR ''{'' # ?body @ replaceWith key sub ((left @ ''{{'') @ ?body) post"
    using replaceWith_no_brace [OF nb] by simp
  finally show ?thesis by (simp add: placeholder_def)
qed

lemma replaceWith_match:
  assumes "placeholderRest key (m @ rest) = Some rest" and "m \<noteq> []"
  shows "replaceWith key sub left (m @ rest) = sub m left rest @ replaceWith key sub (left @ m) rest"
proof -
  from assms(2) obtain c m' where m: "m = c # m'" by (cases m) auto
  have "take (length (c # m' @ rest) - length rest) (c # m' @ rest) = c # m'" by simp
  then show ?thesis using assms(1) unfolding m by (simp add: Let_def)
qed

lemma replaceWith_own_token:
  assumes k: "wordKey key"
    and w1: "\<forall>c\<in>set w1. isSpace c" and w2: "\<forall>c\<in>set w2. isSpace c"
  shows "replaceWith key sub left (placeholder w1 key w2 @ post)
         = sub (placeholder w1 key w2) left post
           @ replaceWith key sub (left @ placeholder w1 key w2) post"
proof -
  have m: "placeholderRest key (placeholder w1 key w2 @ post) = Some post"
    using placeholderRest_at_token [OF k k w1 w2] by simp
  have "placeholder w1 key w2 \<noteq> []" by (simp add: placeholder_def)
  from replaceWith_match [OF m this] show ?thesis .
qed

lemma replaceWith_before_braces:
  assumes k: "wordKey key"
  shows "replaceWith key sub left (u @ CHR ''{'' # CHR ''{'' # t)
         = replaceWith key (\<lambda>m l r. sub m l (r @ CHR ''{'' # CHR ''{'' # t)) left u
           @ replaceWith key sub (left @ u) (CHR ''{'' # CHR ''{'' # t)"
proof (induction "length u" arbitrary: u left rule: less_induct)
  case less
  let ?T = "CHR ''{'' # CHR ''{'' # t"
  show ?case
  proof (cases u)
    case Nil
    then show ?thesis by simp
  next
    case (Cons c u1)
    show ?thesis
    proof (cases "placeholderRest key (u @ ?T)")
      case None
      have "placeholderRest key u = None"
      proof (rule ccontr)
        assume "placeholderRest key u \<noteq> None"
        then obtain r0 where "placeholderRest key u = Some r0" by auto
        from placeholderRest_SomeD [OF this] obtain w1 w2 where
          "u = ''{{'' @ w1 @ key @ w2 @ ''}}'' @ r0"
          "\<forall>c\<in>set w1. isSpace c" "\<forall>c\<in>set w2. isSpace c" by blast
        then have "placeholderRest key (u @ ?T) = Some (r0 @ ?T)"
          using placeholderRest_token [OF k, of w1 w2 "r0 @ ?T"] by simp
        with None show False by simp
      qed
      with None Cons less(1) [of u1 "left @ [c]"] show ?thesis by simp
    next
      case (Some rest)
      have "u \<noteq> []" using Cons by simp
      from no_straddle [OF k Some this] obtain m u' where
        u: "u = m @ u'" and rest: "rest = u' @ ?T" and m: "m \<noteq> []"
        and tok: "\<forall>r. placeholderRest key (m @ r) = Some r" by blast
      have pu: "placeholderRest key u = Some u'" using tok u by simp
      have lt: "length u' < length u" using u m by simp
      have "placeholderRest key (m @ rest) = Some rest" using tok by simp
      from replaceWith_match [OF this m]
      have full: "replaceWith key sub left (u @ ?T)
                  = sub m left rest @ replaceWith key sub (left @ m) rest"
        using u rest by simp
      have "placeholderRest key (m @ u') = Some u'" using tok by simp
      from replaceWith_match [OF this m]
      have alone: "replaceWith key (\<lambda>m l r. sub m l (r @ ?T)) left u
                  = sub m left (u' @ ?T)
                    @ replaceWith key (\<lambda>m l r. sub m l (r @ ?T)) (left @ m) u'"
        using u by simp
      show ?thesis
        using full alone less(1) [OF lt, of "left @ m"] u rest by simp
    qed
  qed
qed

lemma replaceWith_around_token:
  assumes k: "wordKey key" and k': "wordKey k'"
    and w1: "\<forall>c\<in>set w1. isSpace c" and w2: "\<forall>c\<in>set w2. isSpace c"
  shows "replaceWith key sub left (u @ placeholder w1 k' w2 @ post)
         = replaceWith key (\<lambda>m l r. sub m l (r @ placeholder w1 k' w2 @ post)) left u
           @ (if key = k' then sub (placeholder w1 k' w2) (left @ u) post else placeholder w1 k' w2)
           @ replaceWith key sub (left @ u @ placeholder w1 k' w2) post"
proof -
  let ?tok = "placeholder w1 k' w2"
  have t: "?tok @ post = CHR ''{'' # CHR ''{'' # (w1 @ k' @ w2 @ ''}}'' @ post)"
    by (simp add: placeholder_def)
  have "replaceWith key sub left (u @ ?tok @ post)
        = replaceWith key (\<lambda>m l r. sub m l (r @ ?tok @ post)) left u
          @ replaceWith key sub (left @ u) (?tok @ post)"
    unfolding t by (rule replaceWith_before_braces [OF k])
  moreover have "replaceWith key sub (left @ u) (?tok @ post)
        = (if key = k' then sub ?tok (left @ u) post else ?tok)
          @ replaceWith key sub ((left @ u) @ ?tok) post"
    using replaceWith_own_token [OF k w1 w2, of sub "left @ u" post]
          replaceWith_other_token [OF k k' _ w1 w2, of sub "left @ u" post]
    by auto
  ultimately show ?thesis by simp
qed

lemma replaceAll_other_token:
  assumes k: "wordKey key" and k': "wordKey k'" and ne: "key \<noteq> k'"
    and w1: "\<forall>c\<in>set w1. isSpace c" and w2: "\<forall>c\<in>set w2. isSpace c"
  shows "replaceAll key (case val of None \<Rightarrow> [] | Some v \<Rightarrow> v) (p @ placeholder w1 k' w2 @ q)
         = fst (splitStep (placeholder w1 k' w2) (key, val) (p, q)) @ placeholder w1 k' w2
           @ snd (splitStep (placeholder w1 k' w2) (key, val) (p, q))"
  using replaceWith_around_token [OF k k' w1 w2, of _ "[]" p q] ne
  by (simp add: replaceAll_def Let_def)

lemma replacePlaceholders_Cons:
  "replacePlaceholders s ((key, val) # vars)
   = replacePlaceholders (replaceAll key (case val of None \<Rightarrow> [] | Some v \<Rightarrow> v) s) vars"
  by (simp add: replacePlaceholders_def)


lemma replacePlaceholders_around_token:
  assumes k': "wordKey k'"
    and w1: "\<forall>c\<in>set w1. isSpace c" and w2: "\<forall>c\<in>set w2. isSpace c"
    and keys: "list_all (\<lambda>(key, val). wordKey key \<and> key \<noteq> k') vars"
  shows "replacePlaceholders (p @ placeholder w1 k' w2 @ q) vars
         = fst (fold (splitStep (placeholder w1 k' w2)) vars (p, q)) @ placeholder w1 k' w2
           @ snd (fold (splitStep (placeholder w1 k' w2)) vars (p, q))"
  using keys
proof (induction vars arbitrary: p q)
  case Nil
  show ?case by (simp add: replacePlaceholders_def)
next
  case (Cons kv vars)
  obtain key val where kv: "kv = (key, val)" by (cases kv)
  from Cons.prems kv have k: "wordKey key" and ne: "key \<noteq> k'"
    and rest: "list_all (\<lambda>(key, val). wordKey key \<and> key \<noteq> k') vars" by simp_all
  obtain p1 q1 where s: "splitStep (placeholder w1 k' w2) (key, val) (p, q) = (p1, q1)"
    by (cases "splitStep (placeholder w1 k' w2) (key, val) (p, q)")
  have "replacePlaceholders (p @ placeholder w1 k' w2 @ q) (kv # vars)
        = replacePlaceholders (p1 @ placeholder w1 k' w2 @ q1) vars"
    unfolding kv replacePlaceholders_Cons replaceAll_other_token [OF k k' ne w1 w2] s by simp
  also have "\<dots> = fst (fold (splitStep (placeholder w1 k' w2)) vars (p1, q1))
                    @ placeholder w1 k' w2
                    @ snd (fold (splitStep (placeholder w1 k' w2)) vars (p1, q1))"
    by (rule Cons.IH [OF rest])
  finally show ?case by (simp add: kv s del: splitStep.simps)
qed

lemma getSubstitution_plain:
  "CHR ''$'' \<notin> set v \<Longrightarrow> getSubstitution m l r v = v"
  by (induction m l r v rule: getSubstitution.induct) auto

lemma placeholderRest_shorter:
  assumes "placeholderRest key s = Some rest"
  shows "length rest < length s"
proof -
  from placeholderRest_SomeD [OF assms] obtain w1 w2 where
    "s = ''{{'' @ w1 @ key @ w2 @ ''}}'' @ rest" by blast
  then have "length s = length (''{{'' @ w1 @ key @ w2 @ ''}}'' @ rest)" by (rule arg_cong)
  then show ?thesis by simp
qed

lemma replaceWith_left_irrelevant:
  "replaceWith key (\<lambda>m l r. v) left s = replaceWith key (\<lambda>m l r. v) left' s"
proof (induction "length s" arbitrary: s left left' rule: less_induct)
  case less
  show ?case
  proof (cases s)
    case Nil
    then show ?thesis by simp
  next
    case (Cons c cs)
    show ?thesis
    proof (cases "placeholderRest key (c # cs)")
      case None
      with Cons less(1) [of cs "left @ [c]" "left' @ [c]"] show ?thesis by simp
    next
      case (Some rest)
      from placeholderRest_shorter [OF Some] Cons have "length rest < length s" by simp
      from less(1) [OF this] Some Cons show ?thesis by (simp add: Let_def)
    qed
  qed
qed

lemma replaceWith_plain:
  assumes "plainValue val"
  shows "replaceWith key (\<lambda>m l r. getSubstitution m l (f r) (case val of None \<Rightarrow> [] | Some v \<Rightarrow> v)) left s
         = replaceAll key (case val of None \<Rightarrow> [] | Some v \<Rightarrow> v) s"
proof -
  let ?v = "case val of None \<Rightarrow> [] | Some v \<Rightarrow> v"
  have d: "CHR ''$'' \<notin> set ?v" using assms by (simp add: plainValue_def split: option.splits)
  have 1: "(\<lambda>m l r. getSubstitution m l (f r) ?v) = (\<lambda>m l r. ?v)"
    by (intro ext) (rule getSubstitution_plain [OF d])
  have 2: "(\<lambda>m l r. getSubstitution m l r ?v) = (\<lambda>m l r. ?v)"
    by (intro ext) (rule getSubstitution_plain [OF d])
  show ?thesis
    unfolding replaceAll_def 1 2 by (rule replaceWith_left_irrelevant)
qed

lemma splitStep_plain:
  assumes "plainValue val"
  shows "splitStep tok (key, val) (p, q)
         = (replaceAll key (case val of None \<Rightarrow> [] | Some v \<Rightarrow> v) p,
            replaceAll key (case val of None \<Rightarrow> [] | Some v \<Rightarrow> v) q)"
  using replaceWith_plain [OF assms, of key "\<lambda>r. r @ tok @ q" "[]" p]
        replaceWith_plain [OF assms, of key "\<lambda>r. r" "p @ tok" q]
  by (simp add: Let_def)

lemma fold_splitStep_plain:
  "list_all (\<lambda>(key, val). plainValue val) vars \<Longrightarrow>
   fold (splitStep tok) vars (p, q) = (replacePlaceholders p vars, replacePlaceholders q vars)"
proof (induction vars arbitrary: p q)
  case Nil
  show ?case by (simp add: replacePlaceholders_def)
next
  case (Cons kv vars)
  obtain key val where kv: "kv = (key, val)" by (cases kv)
  with Cons.prems have pv: "plainValue val" and rest: "list_all (\<lambda>(key, val). plainValue val) vars"
    by simp_all
  show ?case
    unfolding kv using Cons.IH [OF rest]
    by (simp add: splitStep_plain [OF pv] replacePlaceholders_Cons del: splitStep.simps)
qed




lemma keys_split:
  assumes "list_all wordKey (map fst vars)" and "k \<notin> set (map fst vars)"
  shows "list_all (\<lambda>(key, val). wordKey key \<and> key \<noteq> k) vars"
  using assms by (induction vars) auto

text \<open>
  Claim C6. Let the template hold a placeholder token of the key \<open>k\<close> (for instance
  \<open>{{FOO}}\<close>), and let the keys of the variable map not include \<open>k\<close>; they may include
  keys that \<open>k\<close> is a part of, such as \<open>FOOBAR\<close>. Then the output is the substituted text
  before the occurrence, the occurrence exactly as in the input, and the substituted text
  after it: no match of another key overlaps the occurrence. When no value holds a dollar
  sign the two sides are the substitutions of the two sides of the input.
\<close>

theorem placeholder_untouched_by_other_keys:
  assumes "wordKey k" and "\<forall>c\<in>set w1. isSpace c" and "\<forall>c\<in>set w2. isSpace c"
    and "list_all wordKey (map fst vars)" and "k \<notin> set (map fst vars)"
  shows "replacePlaceholders (pre @ placeholder w1 k w2 @ post) vars
           = fst (fold (splitStep (placeholder w1 k w2)) vars (pre, post))
             @ placeholder w1 k w2
             @ snd (fold (splitStep (placeholder w1 k w2)) vars (pre, post))
       \<and> (list_all plainValue (map snd vars) \<longrightarrow>
            replacePlaceholders (pre @ placeholder w1 k w2 @ post) vars
              = replacePlaceholders pre vars @ placeholder w1 k w2 @ replacePlaceholders post vars)"
proof -
  have ks: "list_all (\<lambda>(key, val). wordKey key \<and> key \<noteq> k) vars"
    by (rule keys_split [OF assms(4,5)])
  have 1: "replacePlaceholders (pre @ placeholder w1 k w2 @ post) vars
           = fst (fold (splitStep (placeholder w1 k w2)) vars (pre, post))
             @ placeholder w1 k w2
             @ snd (fold (splitStep (placeholder w1 k w2)) vars (pre, post))"
    by (rule replacePlaceholders_around_token [OF assms(1-3) ks])
  have 2: "fold (splitStep (placeholder w1 k w2)) vars (pre, post)
           = (replacePlaceholders pre vars, replacePlaceholders post vars)"
    if "list_all plainValue (map snd vars)"
  proof -
    from that have "list_all (\<lambda>(key, val). plainValue val) vars"
      by (induction vars) auto
    then show ?thesis by (rule fold_splitStep_plain)
  qed
  show ?thesis using 1 2 by simp
qed

theorem placeholder_untouched_by_other_keys_witness:
  "replacePlaceholders ''image: {{FOOBAR}}/{{FOO}}:{{ FOOBAR }}'' [(''FOOBAR'', Some ''x'')]
   = ''image: x/{{FOO}}:x''"
proof -
  have k: "wordKey ''FOO''" by (simp add: wordKey_def isWordChar_def)
  have w: "\<forall>c\<in>set []. isSpace c" by simp
  have ks: "list_all wordKey (map fst [(''FOOBAR'', Some ''x'')])"
    by (simp add: wordKey_def isWordChar_def)
  have nk: "''FOO'' \<notin> set (map fst [(''FOOBAR'', Some ''x'')])" by simp
  have pv: "list_all plainValue (map snd [(''FOOBAR'', Some ''x'')])"
    by (simp add: plainValue_def)
  have "replacePlaceholders (''image: {{FOOBAR}}/'' @ placeholder [] ''FOO'' [] @ '':{{ FOOBAR }}'')
          [(''FOOBAR'', Some ''x'')]
        = replacePlaceholders ''image: {{FOOBAR}}/'' [(''FOOBAR'', Some ''x'')]
          @ placeholder [] ''FOO'' []
          @ replacePlaceholders '':{{ FOOBAR }}'' [(''FOOBAR'', Some ''x'')]"
    using placeholder_untouched_by_other_keys [OF k w w ks nk] pv by blast
  moreover have "replacePlaceholders ''image: {{FOOBAR}}/'' [(''FOOBAR'', Some ''x'')] = ''image: x/''"
    by code_simp
  moreover have "replacePlaceholders '':{{ FOOBAR }}'' [(''FOOBAR'', Some ''x'')] = '':x''"
    by code_simp
  ultimately show ?thesis by (simp add: placeholder_def)
qed



section \<open>Facts about the file operations\<close>

lemma keeps_returnIO: "keeps q (returnIO x)"
  by (simp add: keeps_def returnIO_def)

lemma keeps_bindIO: "keeps q m \<Longrightarrow> (\<And>x. keeps q (f x)) \<Longrightarrow> keeps q (bindIO m f)"
  unfolding keeps_def bindIO_def
  by (auto split: prod.splits sum.splits) (metis snd_conv)+

lemma keeps_thenIO: "keeps q m \<Longrightarrow> keeps q n \<Longrightarrow> keeps q (thenIO m n)"
  by (simp add: thenIO_def keeps_bindIO)

lemma keeps_whenIO: "keeps q m \<Longrightarrow> keeps q (whenIO b m)"
  by (simp add: whenIO_def keeps_returnIO)

lemma keeps_if: "keeps q m \<Longrightarrow> keeps q n \<Longrightarrow> keeps q (if b then m else n)"
  by simp

lemma keeps_forEachIO: "(\<And>x. x \<in> set xs \<Longrightarrow> keeps q (f x)) \<Longrightarrow> keeps q (forEachIO f xs)"
  by (induction xs) (simp_all add: keeps_returnIO keeps_thenIO)

lemma keeps_unlessExists: "keeps q m \<Longrightarrow> keeps q (unlessExists p m)"
  by (simp add: keeps_def unlessExists_def)

lemma keeps_unlessExists_self: "keeps q (unlessExists q m)"
  by (simp add: keeps_def unlessExists_def existsSync_def stat_def)

lemma keeps_mkdirRecursive: "keeps q (mkdirRecursive p)"
  by (auto simp: keeps_def mkdirRecursive_def split: option.splits)

lemma keeps_writeFileSync: "p \<noteq> q \<Longrightarrow> keeps q (writeFileSync p c)"
  by (auto simp: keeps_def writeFileSync_def split: option.splits node.splits)

lemma keeps_writeFile: "p \<noteq> q \<Longrightarrow> keeps q (writeFile p c)"
  by (simp add: writeFile_def keeps_thenIO keeps_mkdirRecursive keeps_writeFileSync)

lemma keeps_readTemplate: "keeps q (readTemplate root rel)"
  by (auto simp: keeps_def readTemplate_def readFileSync_def split: option.splits node.splits)

lemma keeps_makeExecutable: "p \<noteq> q \<Longrightarrow> keeps q (makeExecutable p)"
  by (auto simp: keeps_def makeExecutable_def chmodSync_def split: option.splits node.splits)

lemma keeps_emit:
  "p \<noteq> q \<Longrightarrow> keeps q (bindIO (readTemplate root rel) (\<lambda>t. writeFile p (g t)))"
  by (simp add: keeps_bindIO keeps_readTemplate keeps_writeFile)

lemma neq_by_last: "last p \<noteq> last q \<Longrightarrow> (p = q) = False"
  by auto

lemma ensures_bindIO:
  "ensures P m R \<Longrightarrow> (\<And>x. ensures (R x) (f x) Q) \<Longrightarrow> ensures P (bindIO m f) Q"
  unfolding ensures_def bindIO_def
  by (auto split: prod.splits sum.splits)

lemma ensures_thenIO:
  "ensures P m (\<lambda>_. R) \<Longrightarrow> ensures R n Q \<Longrightarrow> ensures P (thenIO m n) Q"
  unfolding thenIO_def by (rule ensures_bindIO)

lemma ensures_keeps:
  "keeps q m \<Longrightarrow> ensures (\<lambda>s. s q = Some n) m (\<lambda>_ s. s q = Some n)"
  unfolding ensures_def keeps_def by (metis snd_conv)

lemma ensures_keeps_content:
  "keeps q m \<Longrightarrow> ensures (\<lambda>s. \<exists>e. s q = Some (File c e)) m (\<lambda>_ s. \<exists>e. s q = Some (File c e))"
  unfolding ensures_def keeps_def by (metis snd_conv)

lemma writeFile_writes:
  assumes "writeFile p c s = (Inr x, s')" and "p \<noteq> []"
  shows "\<exists>e. s' p = Some (File c e)"
  using assms
  by (auto simp: writeFile_def thenIO_def bindIO_def writeFileSync_def stat_def
           split: prod.splits sum.splits if_splits option.splits node.splits)

lemma readTemplate_reads:
  assumes "readTemplate root rel s = (Inr t, s')"
  shows "s' = s \<and> (\<exists>e. s (root @ ''templates'' # rel) = Some (File t e))"
  using assms
  by (auto simp: readTemplate_def readFileSync_def stat_def split: option.splits node.splits)

lemma ensures_emit:
  assumes "p \<noteq> []"
  shows "ensures (\<lambda>s. s (root @ ''templates'' # rel) = Some (File t e))
           (bindIO (readTemplate root rel) (\<lambda>t. writeFile p (g t)))
           (\<lambda>_ s. \<exists>e. s p = Some (File (g t) e))"
  unfolding ensures_def bindIO_def
  using assms
  by (auto split: prod.splits sum.splits dest!: readTemplate_reads writeFile_writes)

lemma ensures_whenIO_True:
  "ensures P m Q \<Longrightarrow> ensures P (whenIO True m) Q"
  by (simp add: whenIO_def)

lemma stack_template_last:
  "''Dockerfile.'' @ stackName st @ ''.template'' \<noteq> ''Dockerfile''"
  "''Dockerfile.'' @ stackName st @ ''.template'' \<noteq> ''.dockerignore''"
  "''monolith.'' @ stackName st @ ''.yml.template'' \<noteq> ''Dockerfile''"
  "''monolith.'' @ stackName st @ ''.yml.template'' \<noteq> ''.dockerignore''"
  "''monolith.'' @ stackName st @ ''.yml.template'' \<noteq> ''monolith.yml''"
  "''ci.'' @ stackName st @ ''.yml.template'' \<noteq> ''ci.yml''"
  by (cases st; simp)+

lemma keeps_dockerFiles_ignore:
  "keeps (cwd @ [''.dockerignore'']) (dockerFiles cwd root st vars)"
  unfolding dockerFiles_def
  by (intro keeps_thenIO keeps_emit keeps_unlessExists_self) simp

lemma keeps_mainRich_ignore:
  "keeps (cwd @ [''.dockerignore'']) (mainRich cwd root presets a)"
  unfolding mainRich_def Let_def
  by (intro keeps_if keeps_thenIO keeps_emit keeps_whenIO keeps_dockerFiles_ignore
            keeps_forEachIO)
     (auto intro!: keeps_thenIO keeps_emit keeps_makeExecutable)

lemma keeps_mainOld_ignore:
  "keeps (cwd @ [''.dockerignore'']) (mainOld cwd root presets a)"
  unfolding mainOld_def Let_def
  by (intro keeps_if keeps_thenIO keeps_bindIO keeps_readTemplate keeps_writeFile keeps_whenIO
            keeps_makeExecutable)
     simp_all


lemma mainRich_deploy:
  assumes prod: "mode a = Production"
    and mig: "trim (migrationInput a) = []"
    and run: "mainRich cwd root presets a s = (Inr x, s')"
    and tpl: "s (root @ [''templates'', ''workflows'', ''deploy.yml.template'']) = Some (File t e)"
  shows "\<exists>e'. s' (cwd @ [''.github'', ''workflows'', ''deploy.yml''])
               = Some (File (replacePlaceholders (removeStepBlock t ''Run migrations'')
                               (varsRich a (presets (stack a)))) e')"
proof -
  let ?T = "root @ [''templates'', ''workflows'', ''deploy.yml.template'']"
  let ?D = "cwd @ [''.github'', ''workflows'', ''deploy.yml'']"
  let ?C = "replacePlaceholders (removeStepBlock t ''Run migrations'') (varsRich a (presets (stack a)))"
  let ?P = "\<lambda>s. s ?T = Some (File t e)"
  let ?Q = "\<lambda>s. \<exists>e'. s ?D = Some (File ?C e')"
  have m: "trim (migrationCommand a) = []" using prod mig by (simp add: migrationCommand_def)
  have "ensures ?P (mainRich cwd root presets a) (\<lambda>_. ?Q)"
    unfolding mainRich_def Let_def
    apply (simp only: prod mode.distinct if_False)
    apply (rule ensures_thenIO [where R = ?P])
     apply (rule ensures_keeps)
     apply (rule keeps_emit)
     apply (simp add: neq_by_last)
    apply (rule ensures_thenIO [where R = ?P])
     apply (rule ensures_keeps)
     apply (rule keeps_emit)
     apply (simp add: neq_by_last)
    apply (rule ensures_thenIO [where R = ?Q])
    subgoal
      using ensures_emit [of "cwd @ [''.github'', ''workflows'', ''deploy.yml'']" root
                "[''workflows'', ''deploy.yml.template'']" t e
                "\<lambda>t. replacePlaceholders (if trim (migrationCommand a) = []
                        then removeStepBlock t ''Run migrations'' else t)
                       (varsRich a (presets (stack a)))"] m
      by simp
    apply (rule ensures_keeps_content)
    apply (intro keeps_thenIO keeps_emit keeps_whenIO keeps_forEachIO)
         apply (auto intro!: keeps_thenIO keeps_emit keeps_makeExecutable keeps_unlessExists
                     simp: dockerFiles_def)
    done
  with run tpl show ?thesis unfolding ensures_def by blast
qed


lemma ensures_dockerFiles:
  "ensures (\<lambda>s. s (root @ [''templates'', ''docker'', ''Dockerfile.'' @ stackName st @ ''.template''])
                 = Some (File t e))
     (dockerFiles cwd root st vars)
     (\<lambda>_ s. \<exists>e'. s (cwd @ [''Dockerfile'']) = Some (File (replacePlaceholders t vars) e'))"
  unfolding dockerFiles_def
  apply (rule ensures_thenIO
           [where R = "\<lambda>s. \<exists>e'. s (cwd @ [''Dockerfile'']) = Some (File (replacePlaceholders t vars) e')"])
  subgoal
    using ensures_emit [of "cwd @ [''Dockerfile'']" root
              "[''docker'', ''Dockerfile.'' @ stackName st @ ''.template'']" t e
              "\<lambda>t. replacePlaceholders t vars"]
    by simp
  apply (rule ensures_keeps_content)
  apply (intro keeps_unlessExists keeps_emit)
  apply simp
  done

lemma mainRich_dockerfile:
  assumes docker: "useDocker a"
    and run: "mainRich cwd root presets a s = (Inr x, s')"
    and tpl: "s (root @ [''templates'', ''docker'', ''Dockerfile.'' @ stackName (stack a) @ ''.template''])
              = Some (File t e)"
  shows "\<exists>e'. s' (cwd @ [''Dockerfile''])
               = Some (File (replacePlaceholders t (varsRich a (presets (stack a)))) e')"
proof -
  let ?T = "root @ [''templates'', ''docker'', ''Dockerfile.'' @ stackName (stack a) @ ''.template'']"
  let ?P = "\<lambda>s. s ?T = Some (File t e)"
  let ?Q = "\<lambda>s. \<exists>e'. s (cwd @ [''Dockerfile''])
               = Some (File (replacePlaceholders t (varsRich a (presets (stack a)))) e')"
  have last: "ensures ?P (whenIO (useDocker a)
                 (dockerFiles cwd root (stack a) (varsRich a (presets (stack a))))) (\<lambda>_. ?Q)"
    using docker ensures_dockerFiles [of root "stack a" t e cwd "varsRich a (presets (stack a))"]
    by (simp add: whenIO_def)
  have "ensures ?P (mainRich cwd root presets a) (\<lambda>_. ?Q)"
  proof (cases "mode a")
    case Simple
    show ?thesis
      unfolding mainRich_def Let_def
      apply (simp only: Simple simp_thms if_True)
      apply (rule ensures_thenIO [where R = ?P])
       apply (rule ensures_keeps)
       apply (rule keeps_emit)
       apply (simp add: neq_by_last)
      apply (rule last)
      done
  next
    case Production
    show ?thesis
      unfolding mainRich_def Let_def
      apply (simp only: Production mode.distinct if_False)
      apply (rule ensures_thenIO [where R = ?P], rule ensures_keeps, rule keeps_emit,
             simp add: neq_by_last)+
      apply (rule ensures_thenIO [where R = ?P])
       apply (rule ensures_keeps)
       apply (intro keeps_forEachIO)
       apply (auto intro!: keeps_thenIO keeps_emit keeps_makeExecutable simp: neq_by_last)[1]
      apply (rule last)
      done
  qed
  with run tpl show ?thesis unfolding ensures_def by blast
qed

lemma old_dockerfile_name:
  "(if st = Java then ''Dockerfile.java.template''
    else if st = Python then ''Dockerfile.python.template'' else ''Dockerfile.node.template'')
   = ''Dockerfile.'' @ stackName st @ ''.template''"
  by (cases st) simp_all

lemma mainOld_dockerfile:
  assumes docker: "useDocker a"
    and run: "mainOld cwd root presets a s = (Inr x, s')"
    and tpl: "s (root @ [''templates'', ''docker'', ''Dockerfile.'' @ stackName (stack a) @ ''.template''])
              = Some (File t e)"
  shows "\<exists>e'. s' (cwd @ [''Dockerfile''])
               = Some (File (replacePlaceholders t (varsOld a (presets (stack a)))) e')"
proof -
  let ?T = "root @ [''templates'', ''docker'', ''Dockerfile.'' @ stackName (stack a) @ ''.template'']"
  let ?P = "\<lambda>s. s ?T = Some (File t e)"
  let ?Q = "\<lambda>s. \<exists>e'. s (cwd @ [''Dockerfile''])
               = Some (File (replacePlaceholders t (varsOld a (presets (stack a)))) e')"
  have k: "\<And>p c. last p \<noteq> ''Dockerfile.'' @ stackName (stack a) @ ''.template'' \<Longrightarrow>
                 ensures ?P (writeFile p c) (\<lambda>_. ?P)"
    by (rule ensures_keeps, rule keeps_writeFile) auto
  have r: "\<And>rel f Q'. (\<And>t. ensures ?P (f t) Q') \<Longrightarrow> ensures ?P (bindIO (readTemplate root rel) f) Q'"
    by (rule ensures_bindIO [where R = "\<lambda>_. ?P"], rule ensures_keeps, rule keeps_readTemplate)
  have m: "\<And>p. last p \<noteq> ''Dockerfile.'' @ stackName (stack a) @ ''.template'' \<Longrightarrow>
                 ensures ?P (makeExecutable p) (\<lambda>_. ?P)"
    by (rule ensures_keeps, rule keeps_makeExecutable) auto
  have last: "ensures ?P
       (whenIO (useDocker a)
          (bindIO (readTemplate root
                     [''docker'',
                      if stack a = Java then ''Dockerfile.java.template''
                      else if stack a = Python then ''Dockerfile.python.template''
                      else ''Dockerfile.node.template''])
             (\<lambda>dockerTpl. writeFile (cwd @ [''Dockerfile''])
                             (replacePlaceholders dockerTpl (varsOld a (presets (stack a)))))))
       (\<lambda>_. ?Q)"
    using docker
          ensures_emit [of "cwd @ [''Dockerfile'']" root
              "[''docker'', ''Dockerfile.'' @ stackName (stack a) @ ''.template'']" t e
              "\<lambda>t. replacePlaceholders t (varsOld a (presets (stack a)))"]
    by (simp add: whenIO_def old_dockerfile_name)
  have "ensures ?P (mainOld cwd root presets a) (\<lambda>_. ?Q)"
    unfolding mainOld_def Let_def
    apply (rule ensures_thenIO [where R = ?P])
     apply (rule r, rule k, simp)
    apply (rule ensures_thenIO [where R = ?P])
     apply (cases "useDocker a"; simp only: if_True if_False; rule r, rule k, simp)
    apply (rule ensures_thenIO [where R = ?P])
     apply (rule r, rule k, simp)
    apply (rule ensures_thenIO [where R = ?P])
     apply (rule r, rule k, simp)
    apply (rule r)+
    apply (rule ensures_thenIO [where R = ?P], rule k, simp)+
    apply (rule ensures_thenIO [where R = ?P], rule m, simp)+
    apply (rule last)
    done
  with run tpl show ?thesis unfolding ensures_def by blast
qed

text \<open>
  The older variant also strips before it substitutes, with its line filter in place of
  \<open>removeStepBlock\<close>.
\<close>

lemma mainOld_deploy:
  assumes mig: "trim (migrationInput a) = []"
    and run: "mainOld cwd root presets a s = (Inr x, s')"
    and tpl: "s (root @ [''templates'', ''workflows'', ''deploy.yml.template'']) = Some (File t e)"
  shows "\<exists>e'. s' (cwd @ [''.github'', ''workflows'', ''deploy.yml''])
               = Some (File (replacePlaceholders (stripMigrationLines t)
                               (varsOld a (presets (stack a)))) e')"
proof -
  let ?T = "root @ [''templates'', ''workflows'', ''deploy.yml.template'']"
  let ?D = "cwd @ [''.github'', ''workflows'', ''deploy.yml'']"
  let ?P = "\<lambda>s. s ?T = Some (File t e)"
  let ?Q = "\<lambda>s. \<exists>e'. s ?D = Some (File (replacePlaceholders (stripMigrationLines t)
                               (varsOld a (presets (stack a)))) e')"
  have k: "\<And>p c. last p \<noteq> ''deploy.yml.template'' \<Longrightarrow> ensures ?P (writeFile p c) (\<lambda>_. ?P)"
    by (rule ensures_keeps, rule keeps_writeFile) auto
  have r: "\<And>rel f Q'. (\<And>t. ensures ?P (f t) Q') \<Longrightarrow> ensures ?P (bindIO (readTemplate root rel) f) Q'"
    by (rule ensures_bindIO [where R = "\<lambda>_. ?P"], rule ensures_keeps, rule keeps_readTemplate)
  have "ensures ?P (mainOld cwd root presets a) (\<lambda>_. ?Q)"
    unfolding mainOld_def Let_def
    apply (rule ensures_thenIO [where R = ?P])
     apply (rule r, rule k, simp)
    apply (rule ensures_thenIO [where R = ?P])
     apply (cases "useDocker a"; simp only: if_True if_False; rule r, rule k, simp)
    apply (rule ensures_thenIO [where R = ?Q])
    subgoal
      using ensures_emit [of "cwd @ [''.github'', ''workflows'', ''deploy.yml'']" root
                "[''workflows'', ''deploy.yml.template'']" t e
                "\<lambda>t. replacePlaceholders (if migrationInput a = [] \<or> trim (migrationInput a) = []
                        then stripMigrationLines t else t)
                       (varsOld a (presets (stack a)))"] mig
      by simp
    apply (rule ensures_keeps_content)
    apply (intro keeps_thenIO keeps_bindIO keeps_readTemplate keeps_writeFile keeps_whenIO
                 keeps_makeExecutable)
    apply simp_all
    done
  with run tpl show ?thesis unfolding ensures_def by blast
qed

lemma copyFile_skips:
  "existsSync s dest \<Longrightarrow> copyFile src dest False s = (Inr (Skipped dest), s)"
  by (simp add: copyFile_def)

lemma existsSync_mkdirRecursive:
  "existsSync s q \<Longrightarrow> existsSync (snd (mkdirRecursive p s)) q"
  by (cases "q = []") (auto simp: existsSync_def stat_def mkdirRecursive_def split: option.splits)

lemma existsSync_copyFileSync:
  "existsSync s q \<Longrightarrow> existsSync (snd (copyFileSync src dest s)) q"
  by (cases "q = []")
     (auto simp: existsSync_def stat_def copyFileSync_def split: option.splits node.splits)

lemma copyFileSync_creates:
  "copyFileSync src dest s = (Inr x, s') \<Longrightarrow> existsSync s' dest"
  by (auto simp: existsSync_def stat_def copyFileSync_def split: option.splits node.splits if_splits)

lemma existsSync_copyFile:
  assumes "existsSync s q"
  shows "existsSync (snd (copyFile src dest force s)) q"
proof (cases "existsSync s dest \<and> \<not> force")
  case True
  with assms show ?thesis by (simp add: copyFile_def)
next
  case False
  define s1 where "s1 = snd ((if \<not> existsSync s (butlast dest) then mkdirRecursive (butlast dest)
                              else returnIO ()) s)"
  have e1: "existsSync s1 q"
    using assms existsSync_mkdirRecursive [of s q "butlast dest"]
    by (simp add: s1_def returnIO_def)
  have "snd (copyFile src dest force s) = s1 \<or>
        snd (copyFile src dest force s) = snd (copyFileSync src dest s1)"
    using False
    by (auto simp: copyFile_def thenIO_def bindIO_def returnIO_def s1_def
             split: prod.splits sum.splits)
  moreover have "existsSync (snd (copyFileSync src dest s1)) q"
    by (rule existsSync_copyFileSync [OF e1])
  ultimately show ?thesis using e1 by metis
qed

lemma copyFile_creates:
  assumes "copyFile src dest force s = (Inr out, s')"
  shows "existsSync s' dest"
proof (cases "existsSync s dest \<and> \<not> force")
  case True
  with assms show ?thesis by (simp add: copyFile_def)
next
  case False
  with assms show ?thesis
    by (auto simp: copyFile_def thenIO_def bindIO_def returnIO_def
             split: prod.splits sum.splits if_splits dest: copyFileSync_creates)
qed

lemma existsSync_copyDir:
  "existsSync s q \<Longrightarrow> existsSync (snd (copyDir entries destDir force s)) q"
proof (induction entries destDir force s rule: copyDir.induct)
  case (1 destDir force s)
  then show ?case by simp
next
  case (2 entry sub entries destDir force s)
  then show ?case
    by (auto split: prod.splits option.splits)
next
  case (3 entry c e entries destDir force s)
  then show ?case
    using existsSync_copyFile [of s q "(c, e)" "destDir @ [entry]" force]
    by (auto split: prod.splits sum.splits)
qed

lemma copyDir_creates:
  "copyDir entries destDir force s = ((None, log), s') \<Longrightarrow>
   \<forall>p\<in>set (targets entries destDir). existsSync s' p"
proof (induction entries destDir force s arbitrary: log s' rule: copyDir.induct)
  case (1 destDir force s)
  then show ?case by simp
next
  case (2 entry sub entries destDir force s)
  from "2.prems" obtain log1 s1 log2 where
    a: "copyDir sub (destDir @ [entry]) force s = ((None, log1), s1)"
    and b: "copyDir entries destDir force s1 = ((None, log2), s')"
    by (auto split: prod.splits option.splits)
  have 1: "\<forall>p\<in>set (targets sub (destDir @ [entry])). existsSync s1 p"
    by (rule "2.IH"(1) [OF a])
  have 2: "\<forall>p\<in>set (targets entries destDir). existsSync s' p"
    by (rule "2.IH"(2) [OF a [symmetric] refl refl b])
  have "\<forall>p\<in>set (targets sub (destDir @ [entry])). existsSync s' p"
    using 1 existsSync_copyDir [of s1 _ entries destDir force] b by (metis snd_conv)
  with 2 show ?case by auto
next
  case (3 entry c e entries destDir force s)
  from "3.prems" obtain out s1 log2 where
    a: "copyFile (c, e) (destDir @ [entry]) force s = (Inr out, s1)"
    and b: "copyDir entries destDir force s1 = ((None, log2), s')"
    by (auto split: prod.splits sum.splits)
  have 2: "\<forall>p\<in>set (targets entries destDir). existsSync s' p"
    by (rule "3.IH" [OF a [symmetric] refl b])
  have "existsSync s' (destDir @ [entry])"
    using copyFile_creates [OF a] existsSync_copyDir [of s1 _ entries destDir force] b
    by (metis snd_conv)
  with 2 show ?case by auto
qed

lemma copyDir_all_skipped:
  "\<forall>p\<in>set (targets entries destDir). existsSync s p \<Longrightarrow>
   copyDir entries destDir False s = ((None, map Skipped (targets entries destDir)), s)"
  by (induction entries destDir rule: targets.induct) (simp_all add: copyFile_skips)

lemma mainIndex_second_run:
  assumes "mainIndex templates cwd force s = ((0, log), s')"
  shows "\<exists>entries. templates = Some entries \<and>
           mainIndex templates cwd False s'
             = ((0, map Skipped (targets entries (cwd @ [''.github'', ''workflows'']))), s')"
proof -
  from assms obtain entries where t: "templates = Some entries" and ne: "entries \<noteq> []"
    and c: "copyDir entries (cwd @ [''.github'', ''workflows'']) force s = ((None, log), s')"
    by (auto simp: mainIndex_def split: option.splits if_splits prod.splits)
  from copyDir_all_skipped [OF copyDir_creates [OF c]] t ne show ?thesis
    by (simp add: mainIndex_def)
qed

lemma run_result: "fst r = Inr () \<Longrightarrow> r = (Inr (), snd r)"
  by (cases r) simp

text \<open>
  Claim C1, amended. The copier of the non-interactive scaffolder skips a destination that
  exists when \<open>--force\<close> is absent: it logs the skip and leaves the file system as it is.
  Consequently a second run without \<open>--force\<close>, after a run that ended with exit code 0,
  reports every file as skipped and leaves the file system as the first run left it. The
  \<open>writeFile\<close> of the interactive scaffolder has no such switch: whenever it succeeds the
  target holds the new content, also when the target existed before.
\<close>

theorem scaffold_overwrite_policy:
  "(existsSync s dest \<longrightarrow> copyFile src dest False s = (Inr (Skipped dest), s))
   \<and> (fst (fst (mainIndex (Some entries) cwd force s0)) = 0 \<longrightarrow>
        mainIndex (Some entries) cwd False (snd (mainIndex (Some entries) cwd force s0))
          = ((0, map Skipped (targets entries (cwd @ [''.github'', ''workflows'']))),
             snd (mainIndex (Some entries) cwd force s0)))
   \<and> (p \<noteq> [] \<and> fst (writeFile p content s1) = Inr () \<longrightarrow>
        (\<exists>e. snd (writeFile p content s1) p = Some (File content e)))"
proof (intro conjI impI)
  assume "existsSync s dest"
  then show "copyFile src dest False s = (Inr (Skipped dest), s)" by (rule copyFile_skips)
next
  assume "fst (fst (mainIndex (Some entries) cwd force s0)) = 0"
  then have "mainIndex (Some entries) cwd force s0
             = ((0, snd (fst (mainIndex (Some entries) cwd force s0))),
                snd (mainIndex (Some entries) cwd force s0))"
    by (metis prod.collapse)
  from mainIndex_second_run [OF this]
  show "mainIndex (Some entries) cwd False (snd (mainIndex (Some entries) cwd force s0))
          = ((0, map Skipped (targets entries (cwd @ [''.github'', ''workflows'']))),
             snd (mainIndex (Some entries) cwd force s0))"
    by simp
next
  assume "p \<noteq> [] \<and> fst (writeFile p content s1) = Inr ()"
  then have ne: "p \<noteq> []" and ok: "fst (writeFile p content s1) = Inr ()" by blast+
  from writeFile_writes [OF run_result [OF ok] ne]
  show "\<exists>e. snd (writeFile p content s1) p = Some (File content e)" .
qed

theorem scaffold_overwrite_policy_witness:
  "copyFile (''new'', False) [''proj'', ''ci.yml''] False [[''proj'', ''ci.yml''] \<mapsto> File ''old'' False]
     = (Inr (Skipped [''proj'', ''ci.yml'']), [[''proj'', ''ci.yml''] \<mapsto> File ''old'' False])
   \<and> fst (mainIndex (Some [(''ci.yml'', TFile ''a'' False), (''sub'', TDir [(''b.yml'', TFile ''b'' False)])])
           [''proj''] False
           (snd (mainIndex (Some [(''ci.yml'', TFile ''a'' False), (''sub'', TDir [(''b.yml'', TFile ''b'' False)])])
                   [''proj''] False Map.empty)))
     = (0, [Skipped [''proj'', ''.github'', ''workflows'', ''ci.yml''],
            Skipped [''proj'', ''.github'', ''workflows'', ''sub'', ''b.yml'']])
   \<and> snd (mainIndex (Some [(''ci.yml'', TFile ''a'' False), (''sub'', TDir [(''b.yml'', TFile ''b'' False)])])
           [''proj''] False
           (snd (mainIndex (Some [(''ci.yml'', TFile ''a'' False), (''sub'', TDir [(''b.yml'', TFile ''b'' False)])])
                   [''proj''] False Map.empty)))
     = snd (mainIndex (Some [(''ci.yml'', TFile ''a'' False), (''sub'', TDir [(''b.yml'', TFile ''b'' False)])])
              [''proj''] False Map.empty)
   \<and> (\<exists>e. snd (writeFile [''proj'', ''Dockerfile''] ''new''
                  [[''proj''] \<mapsto> Dir, [''proj'', ''Dockerfile''] \<mapsto> File ''old'' False])
             [''proj'', ''Dockerfile''] = Some (File ''new'' e))"
proof -
  let ?es = "[(''ci.yml'', TFile ''a'' False), (''sub'', TDir [(''b.yml'', TFile ''b'' False)])]"
  let ?s1 = "[[''proj''] \<mapsto> Dir, [''proj'', ''Dockerfile''] \<mapsto> File ''old'' False]"
  note T = scaffold_overwrite_policy
             [of "[[''proj'', ''ci.yml''] \<mapsto> File ''old'' False]" "[''proj'', ''ci.yml'']"
                 "(''new'', False)" ?es "[''proj'']" False Map.empty
                 "[''proj'', ''Dockerfile'']" "''new''" ?s1]
  have h1: "existsSync [[''proj'', ''ci.yml''] \<mapsto> File ''old'' False] [''proj'', ''ci.yml'']"
    by (simp add: existsSync_def stat_def)
  have h2: "fst (fst (mainIndex (Some ?es) [''proj''] False Map.empty)) = 0"
    by code_simp
  have h3: "[''proj'', ''Dockerfile''] \<noteq> [] \<and>
            fst (writeFile [''proj'', ''Dockerfile''] ''new'' ?s1) = Inr ()"
    by code_simp
  have tg: "map Skipped (targets ?es ([''proj''] @ [''.github'', ''workflows'']))
            = [Skipped [''proj'', ''.github'', ''workflows'', ''ci.yml''],
               Skipped [''proj'', ''.github'', ''workflows'', ''sub'', ''b.yml'']]"
    by simp
  have a: "copyFile (''new'', False) [''proj'', ''ci.yml''] False [[''proj'', ''ci.yml''] \<mapsto> File ''old'' False]
     = (Inr (Skipped [''proj'', ''ci.yml'']), [[''proj'', ''ci.yml''] \<mapsto> File ''old'' False])"
    using T h1 by blast
  have second: "mainIndex (Some ?es) [''proj''] False (snd (mainIndex (Some ?es) [''proj''] False Map.empty))
           = ((0, map Skipped (targets ?es ([''proj''] @ [''.github'', ''workflows'']))),
              snd (mainIndex (Some ?es) [''proj''] False Map.empty))"
    using T h2 by blast
  then have b: "fst (mainIndex (Some ?es) [''proj''] False
                      (snd (mainIndex (Some ?es) [''proj''] False Map.empty)))
           = (0, [Skipped [''proj'', ''.github'', ''workflows'', ''ci.yml''],
                  Skipped [''proj'', ''.github'', ''workflows'', ''sub'', ''b.yml'']])"
    unfolding tg by simp
  from second have b': "snd (mainIndex (Some ?es) [''proj''] False
                      (snd (mainIndex (Some ?es) [''proj''] False Map.empty)))
           = snd (mainIndex (Some ?es) [''proj''] False Map.empty)"
    by simp
  have c: "\<exists>e. snd (writeFile [''proj'', ''Dockerfile''] ''new'' ?s1)
             [''proj'', ''Dockerfile''] = Some (File ''new'' e)"
    using T h3 by blast
  from a b b' c show ?thesis by blast
qed

text \<open>
  \<open>writeFile\<close> on a target that exists: the outcome is not a skip, and the bytes of the
  file are replaced.
\<close>

theorem writeFile_overwrites_counterexample:
  "existsSync [[''proj''] \<mapsto> Dir, [''proj'', ''Dockerfile''] \<mapsto> File ''old'' False] [''proj'', ''Dockerfile'']
   \<and> fst (writeFile [''proj'', ''Dockerfile''] ''new''
            [[''proj''] \<mapsto> Dir, [''proj'', ''Dockerfile''] \<mapsto> File ''old'' False]) = Inr ()
   \<and> snd (writeFile [''proj'', ''Dockerfile''] ''new''
            [[''proj''] \<mapsto> Dir, [''proj'', ''Dockerfile''] \<mapsto> File ''old'' False])
         [''proj'', ''Dockerfile''] = Some (File ''new'' False)"
  by code_simp

text \<open>
  Claim C3, amended. With a migration command that is empty after trimming, both variants
  strip the deploy template first and substitute into the result. In production mode of
  the richer variant the stripping is \<open>removeStepBlock\<close> with \<open>Run migrations\<close>, and a run
  that does not fail leaves as \<open>deploy.yml\<close> the substitution of the block-stripped
  template. The older variant has no block remover: it drops the lines that contain
  \<open>MIGRATION_COMMAND\<close> or, in capital or small letters, \<open>run migrations\<close>, and a run that
  does not fail leaves as \<open>deploy.yml\<close> the substitution of the template without these
  lines.
\<close>

theorem deploy_strips_before_substitution:
  assumes "trim (migrationInput a) = []"
    and "s (root @ [''templates'', ''workflows'', ''deploy.yml.template'']) = Some (File t e)"
  shows "(mode a = Production \<and> fst (mainRich cwd root presets a s) = Inr () \<longrightarrow>
            (\<exists>e'. snd (mainRich cwd root presets a s) (cwd @ [''.github'', ''workflows'', ''deploy.yml''])
                 = Some (File (replacePlaceholders (removeStepBlock t ''Run migrations'')
                                 (varsRich a (presets (stack a)))) e')))
       \<and> (fst (mainOld cwd root presets a s) = Inr () \<longrightarrow>
            (\<exists>e'. snd (mainOld cwd root presets a s) (cwd @ [''.github'', ''workflows'', ''deploy.yml''])
                 = Some (File (replacePlaceholders
                                 (joinNL (filter (\<lambda>line. \<not> includesStr line ''MIGRATION_COMMAND'' \<and>
                                                        \<not> includesStr (toLowerCase line) ''run migrations'')
                                            (splitNL t)))
                                 (varsOld a (presets (stack a)))) e')))"
proof (intro conjI impI)
  assume "mode a = Production \<and> fst (mainRich cwd root presets a s) = Inr ()"
  then have p: "mode a = Production" and r: "fst (mainRich cwd root presets a s) = Inr ()"
    by blast+
  from mainRich_deploy [OF p assms(1) run_result [OF r] assms(2)]
  show "\<exists>e'. snd (mainRich cwd root presets a s) (cwd @ [''.github'', ''workflows'', ''deploy.yml''])
                 = Some (File (replacePlaceholders (removeStepBlock t ''Run migrations'')
                                 (varsRich a (presets (stack a)))) e')" .
next
  assume r: "fst (mainOld cwd root presets a s) = Inr ()"
  from mainOld_deploy [OF assms(1) run_result [OF r] assms(2)]
  show "\<exists>e'. snd (mainOld cwd root presets a s) (cwd @ [''.github'', ''workflows'', ''deploy.yml''])
                 = Some (File (replacePlaceholders
                                 (joinNL (filter (\<lambda>line. \<not> includesStr line ''MIGRATION_COMMAND'' \<and>
                                                        \<not> includesStr (toLowerCase line) ''run migrations'')
                                            (splitNL t)))
                                 (varsOld a (presets (stack a)))) e')"
    unfolding stripMigrationLines_def .
qed

theorem deploy_strips_before_substitution_witness:
  "(\<exists>e'. snd (mainRich [''proj''] [''pkg''] demoPresets demoAnswers demoFs)
           [''proj'', ''.github'', ''workflows'', ''deploy.yml'']
         = Some (File ''steps:\<newline>  - name: Start myapp'' e'))
   \<and> (\<exists>e'. snd (mainOld [''proj''] [''pkg''] demoPresets demoAnswers demoFs)
           [''proj'', ''.github'', ''workflows'', ''deploy.yml'']
         = Some (File ''steps:\<newline>  - name: Start My App'' e'))"
proof -
  have h1: "mode demoAnswers = Production" by (simp add: demoAnswers_def)
  have h2: "trim (migrationInput demoAnswers) = []" by (simp add: demoAnswers_def trim_def)
  have h3: "fst (mainRich [''proj''] [''pkg''] demoPresets demoAnswers demoFs) = Inr ()"
    by code_simp
  have h3': "fst (mainOld [''proj''] [''pkg''] demoPresets demoAnswers demoFs) = Inr ()"
    by code_simp
  have h4: "demoFs ([''pkg''] @ [''templates'', ''workflows'', ''deploy.yml.template''])
            = Some (File ''steps:\<newline>  - name: Run migrations\<newline>    run: {{MIGRATION_COMMAND}}\<newline>  - name: Start {{APP_NAME}}'' False)"
    by (simp add: demoFs_def)
  have r: "replacePlaceholders
             (removeStepBlock ''steps:\<newline>  - name: Run migrations\<newline>    run: {{MIGRATION_COMMAND}}\<newline>  - name: Start {{APP_NAME}}''
                ''Run migrations'')
             (varsRich demoAnswers (demoPresets (stack demoAnswers)))
           = ''steps:\<newline>  - name: Start myapp''"
    by code_simp
  have r': "replacePlaceholders
             (joinNL (filter (\<lambda>line. \<not> includesStr line ''MIGRATION_COMMAND'' \<and>
                                    \<not> includesStr (toLowerCase line) ''run migrations'')
                (splitNL ''steps:\<newline>  - name: Run migrations\<newline>    run: {{MIGRATION_COMMAND}}\<newline>  - name: Start {{APP_NAME}}'')))
             (varsOld demoAnswers (demoPresets (stack demoAnswers)))
           = ''steps:\<newline>  - name: Start My App''"
    by code_simp
  have p: "[''proj''] @ [''.github'', ''workflows'', ''deploy.yml'']
           = [''proj'', ''.github'', ''workflows'', ''deploy.yml'']"
    by simp
  from deploy_strips_before_substitution
         [where a = demoAnswers and s = demoFs and root = "[''pkg'']" and cwd = "[''proj'']"
            and presets = demoPresets, OF h2 h4] h1 h3 h3'
  show ?thesis
    unfolding r r' p by blast
qed

text \<open>
  The older variant on a deploy template whose migration step has a third line: the line
  stays in \<open>deploy.yml\<close>, so the artifact is not the substitution of the block-stripped
  template.
\<close>

theorem mainOld_deploy_counterexample:
  "trim (migrationInput demoAnswers) = []
   \<and> fst (mainOld [''proj''] [''pkg''] demoPresets demoAnswers demoFsBody) = Inr ()
   \<and> snd (mainOld [''proj''] [''pkg''] demoPresets demoAnswers demoFsBody)
         [''proj'', ''.github'', ''workflows'', ''deploy.yml'']
       = Some (File ''steps:\<newline>    env: keep\<newline>  - name: Start'' False)
   \<and> replacePlaceholders
         (removeStepBlock ''steps:\<newline>  - name: Run migrations\<newline>    run: {{MIGRATION_COMMAND}}\<newline>    env: keep\<newline>  - name: Start''
            ''Run migrations'')
         (varsOld demoAnswers (demoPresets (stack demoAnswers)))
       = ''steps:\<newline>  - name: Start''"
  by code_simp

text \<open>
  Claim C10. A \<open>.dockerignore\<close> file that exists at the project root is the same after
  every run of the interactive scaffolder, in both modes of the richer variant and in the
  older variant, whether or not the run fails. With Docker enabled, a run that does not
  fail leaves as Dockerfile the substitution of the Dockerfile template of the stack,
  whatever was at that path before.
\<close>

theorem dockerignore_kept_dockerfile_written:
  "(s (cwd @ [''.dockerignore'']) = Some n \<longrightarrow>
      snd (mainRich cwd root presets a s) (cwd @ [''.dockerignore'']) = Some n
      \<and> snd (mainOld cwd root presets a s) (cwd @ [''.dockerignore'']) = Some n)
   \<and> (useDocker a \<and>
       s (root @ [''templates'', ''docker'', ''Dockerfile.'' @ stackName (stack a) @ ''.template''])
         = Some (File t e) \<longrightarrow>
      (fst (mainRich cwd root presets a s) = Inr () \<longrightarrow>
         (\<exists>e'. snd (mainRich cwd root presets a s) (cwd @ [''Dockerfile''])
                 = Some (File (replacePlaceholders t (varsRich a (presets (stack a)))) e')))
      \<and> (fst (mainOld cwd root presets a s) = Inr () \<longrightarrow>
         (\<exists>e'. snd (mainOld cwd root presets a s) (cwd @ [''Dockerfile''])
                 = Some (File (replacePlaceholders t (varsOld a (presets (stack a)))) e'))))"
proof (intro conjI impI)
  assume "s (cwd @ [''.dockerignore'']) = Some n"
  then show "snd (mainRich cwd root presets a s) (cwd @ [''.dockerignore'']) = Some n"
    using keeps_mainRich_ignore [of cwd root presets a] by (simp add: keeps_def)
next
  assume "s (cwd @ [''.dockerignore'']) = Some n"
  then show "snd (mainOld cwd root presets a s) (cwd @ [''.dockerignore'']) = Some n"
    using keeps_mainOld_ignore [of cwd root presets a] by (simp add: keeps_def)
next
  assume a: "useDocker a \<and>
       s (root @ [''templates'', ''docker'', ''Dockerfile.'' @ stackName (stack a) @ ''.template''])
         = Some (File t e)"
    and r: "fst (mainRich cwd root presets a s) = Inr ()"
  from a have d: "useDocker a" and t: "s (root @ [''templates'', ''docker'',
        ''Dockerfile.'' @ stackName (stack a) @ ''.template'']) = Some (File t e)" by blast+
  from mainRich_dockerfile [OF d run_result [OF r] t]
  show "\<exists>e'. snd (mainRich cwd root presets a s) (cwd @ [''Dockerfile''])
                 = Some (File (replacePlaceholders t (varsRich a (presets (stack a)))) e')" .
next
  assume a: "useDocker a \<and>
       s (root @ [''templates'', ''docker'', ''Dockerfile.'' @ stackName (stack a) @ ''.template''])
         = Some (File t e)"
    and r: "fst (mainOld cwd root presets a s) = Inr ()"
  from a have d: "useDocker a" and t: "s (root @ [''templates'', ''docker'',
        ''Dockerfile.'' @ stackName (stack a) @ ''.template'']) = Some (File t e)" by blast+
  from mainOld_dockerfile [OF d run_result [OF r] t]
  show "\<exists>e'. snd (mainOld cwd root presets a s) (cwd @ [''Dockerfile''])
                 = Some (File (replacePlaceholders t (varsOld a (presets (stack a)))) e')" .
qed

theorem dockerignore_kept_dockerfile_written_witness:
  "snd (mainRich [''proj''] [''pkg''] demoPresets demoAnswers demoFs) [''proj'', ''.dockerignore'']
     = Some (File ''node_modules'' False)
   \<and> snd (mainOld [''proj''] [''pkg''] demoPresets demoAnswers demoFs) [''proj'', ''.dockerignore'']
     = Some (File ''node_modules'' False)
   \<and> demoFs [''proj'', ''Dockerfile''] = Some (File ''FROM scratch'' False)
   \<and> (\<exists>e'. snd (mainRich [''proj''] [''pkg''] demoPresets demoAnswers demoFs) [''proj'', ''Dockerfile'']
            = Some (File ''EXPOSE 80'' e'))
   \<and> (\<exists>e'. snd (mainOld [''proj''] [''pkg''] demoPresets demoAnswers demoFs) [''proj'', ''Dockerfile'']
            = Some (File ''EXPOSE 80'' e'))"
proof -
  note T = dockerignore_kept_dockerfile_written
             [of demoFs "[''proj'']" "File ''node_modules'' False" "[''pkg'']" demoPresets demoAnswers
                 "''EXPOSE {{PORT}}''" False]
  have h1: "demoFs ([''proj''] @ [''.dockerignore'']) = Some (File ''node_modules'' False)"
    by (simp add: demoFs_def)
  have h2: "useDocker demoAnswers \<and>
            demoFs ([''pkg''] @ [''templates'', ''docker'',
                       ''Dockerfile.'' @ stackName (stack demoAnswers) @ ''.template''])
              = Some (File ''EXPOSE {{PORT}}'' False)"
    by (simp add: demoFs_def demoAnswers_def)
  have h3: "fst (mainRich [''proj''] [''pkg''] demoPresets demoAnswers demoFs) = Inr ()"
    by code_simp
  have h4: "fst (mainOld [''proj''] [''pkg''] demoPresets demoAnswers demoFs) = Inr ()"
    by code_simp
  have r1: "replacePlaceholders ''EXPOSE {{PORT}}'' (varsRich demoAnswers (demoPresets (stack demoAnswers)))
            = ''EXPOSE 80''"
    by code_simp
  have r2: "replacePlaceholders ''EXPOSE {{PORT}}'' (varsOld demoAnswers (demoPresets (stack demoAnswers)))
            = ''EXPOSE 80''"
    by code_simp
  have old: "demoFs [''proj'', ''Dockerfile''] = Some (File ''FROM scratch'' False)"
    by (simp add: demoFs_def)
  from T h1 h2 h3 h4 old show ?thesis
    unfolding r1 r2 by simp
qed

text \<open>
  The sanitised project name holds only small letters, digits, hyphens and underscores.
  The richer variant uses it for \<open>APP_NAME\<close> and \<open>IMAGE_NAME\<close>; the older variant uses it
  for \<open>IMAGE_NAME\<close> and passes the project name as entered for \<open>APP_NAME\<close>.
\<close>

lemma imageName_slug: "list_all slugChar (imageName name)"
  by (simp add: imageName_def list_all_iff)

lemma varsRich_names:
  "map_of (varsRich a p) ''APP_NAME'' = Some (Some (imageName (projectName a)))
   \<and> map_of (varsRich a p) ''IMAGE_NAME'' = Some (Some (imageName (projectName a)))"
  by (simp add: varsRich_def)

lemma varsOld_names:
  "map_of (varsOld a p) ''APP_NAME'' = Some (Some (projectName a))
   \<and> map_of (varsOld a p) ''IMAGE_NAME'' = Some (Some (imageName (projectName a)))"
  by (simp add: varsOld_def)

text \<open>
  Claim C8 at the project name \<open>My App\<close> in the older variant: \<open>APP_NAME\<close> is the name as
  entered, with its capital letters and its space, while the sanitised name is \<open>myapp\<close>.
\<close>

theorem varsOld_app_name_raw:
  "map_of (varsOld demoAnswers (demoPresets Node)) ''APP_NAME'' = Some (Some ''My App'')
   \<and> imageName ''My App'' = ''myapp''
   \<and> \<not> list_all slugChar ''My App''"
  by code_simp

end
